theory Spec2Isabelle
  imports Main
begin

section \<open>Strings and values\<close>

text \<open>
  A Python \<open>str\<close> is a sequence of Unicode code points, and \<open>len\<close>, slicing and the
  \<open>re\<close> module all count code points.  A string is therefore modelled as the list of
  its code points; ASCII literals of the source are written with \<open>str_of\<close>.
\<close>

type_synonym pystr = "nat list"

definition str_of :: "string \<Rightarrow> pystr" where
  "str_of s = map of_char s"

text \<open>
  The whitespace test shared by \<open>\s\<close> of \<open>re\<close> (on \<open>str\<close> patterns) and by
  \<open>str.strip()\<close>: the code points for which \<open>str.isspace()\<close> holds.
\<close>

definition is_space :: "nat \<Rightarrow> bool" where
  "is_space c \<longleftrightarrow>
     (9 \<le> c \<and> c \<le> 13) \<or> (28 \<le> c \<and> c \<le> 32) \<or> c = 133 \<or> c = 160 \<or> c = 5760 \<or>
     (8192 \<le> c \<and> c \<le> 8202) \<or> c = 8232 \<or> c = 8233 \<or> c = 8239 \<or> c = 8287 \<or> c = 12288"

text \<open>
  The word-character test behind \<open>\b\<close>: ASCII letters, digits and the underscore; beyond
  ASCII the Unicode database decides, which is the parameter \<open>alnum\<close>.
\<close>

definition is_word :: "(nat \<Rightarrow> bool) \<Rightarrow> nat \<Rightarrow> bool" where
  "is_word alnum c \<longleftrightarrow>
     (48 \<le> c \<and> c \<le> 57) \<or> (65 \<le> c \<and> c \<le> 90) \<or> (97 \<le> c \<and> c \<le> 122) \<or> c = 95 \<or>
     (128 \<le> c \<and> alnum c)"

text \<open>The values a field of a decoded JSON record holds in this program.\<close>

datatype pyval = PNone | PInt int | PStr pystr

text \<open>
  The exceptions, all of them instances of \<open>Exception\<close>: those the interpreter raises in
  this program and, as \<open>LibError\<close>, whatever a library call raises.  Interrupts that
  reach the process from outside are not part of the model.
\<close>

datatype exn = KeyError | IndexError | TypeError | ValueError | JSONDecodeError | LibError nat

subsection \<open>\<open>str()\<close>\<close>

fun str_nat :: "nat \<Rightarrow> pystr" where
  "str_nat n = (if n < 10 then [48 + n] else str_nat (n div 10) @ [48 + n mod 10])"

declare str_nat.simps [simp del]

definition str_int :: "int \<Rightarrow> pystr" where
  "str_int i = (if i < 0 then 45 # str_nat (nat (- i)) else str_nat (nat i))"

fun py_str :: "pyval \<Rightarrow> pystr" where
  "py_str PNone = str_of ''None''"
| "py_str (PInt i) = str_int i"
| "py_str (PStr s) = s"

section \<open>Filename sanitization\<close>

text \<open>
  \<^verbatim>\<open>
  def sanitize_filename(title):
      name = re.sub(r'[<>:"/\\|?*]', "", title)
      name = re.sub(r"\s+", " ", name).strip()
      return name[:120] if name else "untitled"
  \<close>
  The character class holds the code points of \<open><\<close> (60), \<open>>\<close> (62), \<open>:\<close> (58),
  the double quote (34), \<open>/\<close> (47), the backslash (92), \<open>|\<close> (124), \<open>?\<close> (63) and
  \<open>*\<close> (42).
\<close>

definition forbidden :: "nat list" where
  "forbidden = [60, 62, 58, 34, 47, 92, 124, 63, 42]"

definition remove_forbidden :: "pystr \<Rightarrow> pystr" where
  "remove_forbidden s = filter (\<lambda>c. c \<notin> set forbidden) s"

text \<open>\<open>re.sub(r"\s+", " ", name)\<close>: every maximal run of whitespace becomes one space.\<close>

function collapse_ws :: "pystr \<Rightarrow> pystr" where
  "collapse_ws [] = []"
| "collapse_ws (c # cs) =
     (if is_space c then 32 # collapse_ws (dropWhile is_space cs) else c # collapse_ws cs)"
  by pat_completeness auto
termination
  by (relation "measure length") (auto simp: length_dropWhile_le less_Suc_eq_le)

definition strip :: "pystr \<Rightarrow> pystr" where
  "strip s = rev (dropWhile is_space (rev (dropWhile is_space s)))"

fun sanitize_filename :: "pyval \<Rightarrow> exn + pystr" where
  "sanitize_filename (PStr title) =
     (let name = remove_forbidden title;
          name = strip (collapse_ws name)
      in Inr (if name \<noteq> [] then take 120 name else str_of ''untitled''))"
| "sanitize_filename _ = Inl TypeError"

text \<open>No two whitespace characters in a row.\<close>

fun single_spaced :: "pystr \<Rightarrow> bool" where
  "single_spaced (a # b # r) \<longleftrightarrow> \<not> (is_space a \<and> is_space b) \<and> single_spaced (b # r)"
| "single_spaced _ \<longleftrightarrow> True"

section \<open>Image-tag normalization\<close>

text \<open>
  \<^verbatim>\<open>
  # Trafilatura outputs <graphic> tags instead of <img>; convert for WeasyPrint.
  content = re.sub(r"<graphic\b", "<img", content)
  content = re.sub(r"</graphic>", "", content)
  \<close>
  \<open>re.sub\<close> replaces the non-overlapping matches found in one scan from the left.
  \<open>\b\<close> after the word character \<open>c\<close> holds at the end of the string and before a
  character that is not a word character.
\<close>

definition match_open :: "(nat \<Rightarrow> bool) \<Rightarrow> pystr \<Rightarrow> bool" where
  "match_open alnum s \<longleftrightarrow>
     take 8 s = str_of ''<graphic'' \<and>
     (case drop 8 s of [] \<Rightarrow> True | d # _ \<Rightarrow> \<not> is_word alnum d)"

definition match_close :: "pystr \<Rightarrow> bool" where
  "match_close s \<longleftrightarrow> take 10 s = str_of ''</graphic>''"

function sub_graphic_open :: "(nat \<Rightarrow> bool) \<Rightarrow> pystr \<Rightarrow> pystr" where
  "sub_graphic_open alnum [] = []"
| "sub_graphic_open alnum (c # cs) =
     (if match_open alnum (c # cs) then str_of ''<img'' @ sub_graphic_open alnum (drop 7 cs)
      else c # sub_graphic_open alnum cs)"
  by pat_completeness auto
termination
  by (relation "measure (\<lambda>(alnum, s). length s)") auto

function sub_graphic_close :: "pystr \<Rightarrow> pystr" where
  "sub_graphic_close [] = []"
| "sub_graphic_close (c # cs) =
     (if match_close (c # cs) then sub_graphic_close (drop 9 cs)
      else c # sub_graphic_close cs)"
  by pat_completeness auto
termination
  by (relation "measure length") auto

definition normalize_content :: "(nat \<Rightarrow> bool) \<Rightarrow> pystr \<Rightarrow> pystr" where
  "normalize_content alnum content = sub_graphic_close (sub_graphic_open alnum content)"

text \<open>
  The same rewriting described tag by tag, in one scan: an opening \<open><graphic\<close> at a word
  boundary becomes \<open><img\<close> and what follows it is kept, a closing \<open></graphic>\<close> is
  dropped, every other character is copied.
\<close>

function rewrite_tags :: "(nat \<Rightarrow> bool) \<Rightarrow> pystr \<Rightarrow> pystr" where
  "rewrite_tags alnum [] = []"
| "rewrite_tags alnum (c # cs) =
     (if match_open alnum (c # cs) then str_of ''<img'' @ rewrite_tags alnum (drop 7 cs)
      else if match_close (c # cs) then rewrite_tags alnum (drop 9 cs)
      else c # rewrite_tags alnum cs)"
  by pat_completeness auto
termination
  by (relation "measure (\<lambda>(alnum, s). length s)") auto

text \<open>
  Substitution of the tag name alone, as a specification to compare with: the opening tag
  as above, and the closing \<open></graphic>\<close> renamed to \<open></img>\<close>.
\<close>

function rename_tags_spec :: "(nat \<Rightarrow> bool) \<Rightarrow> pystr \<Rightarrow> pystr" where
  "rename_tags_spec alnum [] = []"
| "rename_tags_spec alnum (c # cs) =
     (if match_open alnum (c # cs) then str_of ''<img'' @ rename_tags_spec alnum (drop 7 cs)
      else if match_close (c # cs) then str_of ''</img>'' @ rename_tags_spec alnum (drop 9 cs)
      else c # rename_tags_spec alnum cs)"
  by pat_completeness auto
termination
  by (relation "measure (\<lambda>(alnum, s). length s)") auto

text \<open>The stylesheet; code point 39 is the single quote, 10 the line feed.\<close>

definition EREADER_CSS :: pystr where
  "EREADER_CSS =
     str_of ''@page {'' @ [10] @
     str_of ''    size: A5;'' @ [10] @
     str_of ''    margin: 1.5cm;'' @ [10] @
     str_of ''}'' @ [10] @
     str_of ''body {'' @ [10] @
     str_of ''    font-family: Georgia, '' @ [39] @ str_of ''Times New Roman'' @ [39] @ str_of '', serif;'' @ [10] @
     str_of ''    font-size: 11pt;'' @ [10] @
     str_of ''    line-height: 1.6;'' @ [10] @
     str_of ''    color: #000;'' @ [10] @
     str_of ''}'' @ [10] @
     str_of ''h1 { font-size: 16pt; margin-bottom: 0.5em; }'' @ [10] @
     str_of ''h2 { font-size: 14pt; }'' @ [10] @
     str_of ''h3 { font-size: 12pt; }'' @ [10] @
     str_of ''img { max-width: 100%; height: auto; }'' @ [10] @
     str_of ''a { color: #000; text-decoration: underline; }'' @ [10] @
     str_of ''pre, code { font-size: 9pt; overflow-wrap: break-word; }'' @ [10] @
     str_of ''blockquote { border-left: 2px solid #666; padding-left: 0.8em; margin-left: 0; }'' @ [10]"

text \<open>
  \<open>HTML_TEMPLATE.format(css=EREADER_CSS, content=content)\<close>: the template with its two
  fields filled in.  Code point 10 is the line feed, 34 the double quote.
\<close>

definition HTML_TEMPLATE :: "pystr \<Rightarrow> pystr \<Rightarrow> pystr" where
  "HTML_TEMPLATE css content =
     str_of ''<!DOCTYPE html>'' @ [10] @
     str_of ''<html>'' @ [10] @
     str_of ''<head>'' @ [10] @
     str_of ''<meta charset='' @ [34] @ str_of ''utf-8'' @ [34] @ str_of ''>'' @ [10] @
     str_of ''<style>'' @ css @ str_of ''</style>'' @ [10] @
     str_of ''</head>'' @ [10] @
     str_of ''<body>'' @ [10] @
     content @ [10] @
     str_of ''</body>'' @ [10] @
     str_of ''</html>'' @ [10]"

section \<open>State, environment and recorded calls\<close>

datatype level = INFO | WARNING | ERROR

text \<open>
  A log record: level, format string, arguments, and the exception attached by
  \<open>log.exception\<close>.
\<close>

datatype log_entry = Log level string "pyval list" "exn option"

text \<open>One bookmark record of the listing response, with the keys this program reads.\<close>

record item =
  rec_type :: "pyval option"
  bookmark_id :: "pyval option"
  title :: "pyval option"
  url :: "pyval option"

text \<open>
  An HTTP response.  \<open>resp_json\<close> is what \<open>resp.json()\<close> followed by the iteration over
  the decoded list gives: the records, or the exception raised on the way.
\<close>

record response =
  status_code :: int
  resp_text :: pystr
  resp_json :: "exn + item list"

record config =
  consumer_key :: pystr
  consumer_secret :: pystr
  username :: pystr
  password :: pystr
  remarkable_folder :: pystr
  batch_size :: int
  processed_log :: pystr

type_synonym ledger = "(pystr \<times> pystr) list"

text \<open>
  Every call that leaves the process is recorded with what it returned: an exception
  (\<open>Inl\<close>, or \<open>Some\<close> where the call returns nothing) or a value.
\<close>

datatype call =
    AccessTokenPost "exn + response"
  | ListPost int "exn + response"
  | FetchUrl pyval "exn + pystr option"
  | Extract pystr "exn + pystr option"
  | WritePdf pystr pyval pystr "exn option"
  | RmapiMkdir pystr "exn option"
  | RmapiPut pystr pystr "exn + int \<times> pystr \<times> pystr"
  | WriteText pystr pystr
  | Mkdtemp "exn + pystr"
  | Rmtree pystr

text \<open>
  The state threaded through the run: \<open>processed\<close> is the local variable of \<open>main\<close>,
  \<open>logs\<close> what the logger received, \<open>files\<close> the text files of the file system and
  \<open>dirs\<close> the temporary directories that exist.  Three fields are bookkeeping of the
  model and no variable of the program: \<open>trace\<close>, the recorded calls, each with the
  bookmark id \<open>current\<close> of the loop iteration that made it, and \<open>clock\<close>, the
  number of calls made so far.
\<close>

record state =
  processed :: ledger
  logs :: "log_entry list"
  trace :: "(pystr option \<times> call) list"
  current :: "pystr option"
  files :: "pystr \<rightharpoonup> pystr"
  dirs :: "pystr list"
  clock :: nat

text \<open>
  What the process cannot decide: the environment variables (after \<open>load_dotenv\<close>), the
  library functions taken as they are, and the outcome of every external call, which may
  differ from one call to the next and so depends on the clock.
\<close>

record env =
  getenv :: "string \<Rightarrow> pystr option"
  py_int :: "pystr \<Rightarrow> exn + int"
  expanduser :: "pystr \<Rightarrow> pystr"
  which_rmapi :: bool
  access_token_post :: "nat \<Rightarrow> config \<Rightarrow> exn + response"
  parse_qs :: "pystr \<Rightarrow> (pystr \<times> pystr list) list"
  bookmarks_list_post :: "nat \<Rightarrow> pystr \<times> pystr \<Rightarrow> int \<Rightarrow> exn + response"
  json_loads :: "pystr \<Rightarrow> exn + ledger"
  json_dumps :: "ledger \<Rightarrow> pystr"
  fetch_url :: "nat \<Rightarrow> pyval \<Rightarrow> exn + pystr option"
  extract_content :: "nat \<Rightarrow> pystr \<Rightarrow> exn + pystr option"
  write_pdf :: "nat \<Rightarrow> pystr \<Rightarrow> pyval \<Rightarrow> pystr \<Rightarrow> exn option"
  rmapi_mkdir :: "nat \<Rightarrow> pystr \<Rightarrow> exn option"
  rmapi_put :: "nat \<Rightarrow> pystr \<Rightarrow> pystr \<Rightarrow> exn + int \<times> pystr \<times> pystr"
  now_iso :: "nat \<Rightarrow> pystr"
  mkdtemp :: "nat \<Rightarrow> exn + pystr"
  alnum :: "nat \<Rightarrow> bool"

definition logw :: "level \<Rightarrow> string \<Rightarrow> pyval list \<Rightarrow> state \<Rightarrow> state" where
  "logw lvl fmt args s = s\<lparr>logs := logs s @ [Log lvl fmt args None]\<rparr>"

definition log_exception :: "string \<Rightarrow> pyval list \<Rightarrow> exn \<Rightarrow> state \<Rightarrow> state" where
  "log_exception fmt args e s = s\<lparr>logs := logs s @ [Log ERROR fmt args (Some e)]\<rparr>"

definition record_call :: "call \<Rightarrow> state \<Rightarrow> state" where
  "record_call c s = s\<lparr>trace := trace s @ [(current s, c)], clock := Suc (clock s)\<rparr>"

text \<open>A call made outside the loop is recorded without an id.\<close>

definition record_top :: "call \<Rightarrow> state \<Rightarrow> state" where
  "record_top c s = s\<lparr>trace := trace s @ [(None, c)], clock := Suc (clock s)\<rparr>"

section \<open>Startup\<close>

text \<open>How a run can stop early: \<open>sys.exit\<close> with a status, or an exception nobody caught.\<close>

datatype abort = SysExit int | Uncaught exn

fun join_sep :: "pystr \<Rightarrow> pystr list \<Rightarrow> pystr" where
  "join_sep sep [] = []"
| "join_sep sep [x] = x"
| "join_sep sep (x # y # ys) = x @ sep @ join_sep sep (y # ys)"

definition required :: "string list" where
  "required = [''INSTAPAPER_CONSUMER_KEY'', ''INSTAPAPER_CONSUMER_SECRET'',
               ''INSTAPAPER_USERNAME'', ''INSTAPAPER_PASSWORD'']"

definition getenv_default :: "env \<Rightarrow> string \<Rightarrow> pystr \<Rightarrow> pystr" where
  "getenv_default env k d = (case getenv env k of None \<Rightarrow> d | Some v \<Rightarrow> v)"

text \<open>
  \<open>load_config\<close>: a required variable that is unset or empty stops the run with status 1;
  \<open>int(...)\<close> of the batch size may raise.
\<close>

definition load_config :: "env \<Rightarrow> state \<Rightarrow> (abort + config) \<times> state" where
  "load_config env s =
     (let missing = filter (\<lambda>k. case getenv env k of None \<Rightarrow> True | Some v \<Rightarrow> v = []) required
      in if missing \<noteq> [] then
           (Inl (SysExit 1),
            logw ERROR ''Missing env vars: %s. See config.example.env''
              [PStr (join_sep (str_of '', '') (map str_of missing))] s)
         else
           (case map (getenv env) required of
              [Some ck, Some cs, Some u, Some pw] \<Rightarrow>
                (case py_int env (getenv_default env ''BATCH_SIZE'' (str_of ''25'')) of
                   Inl e \<Rightarrow> (Inl (Uncaught e), s)
                 | Inr n \<Rightarrow>
                     (Inr \<lparr>consumer_key = ck, consumer_secret = cs, username = u, password = pw,
                           remarkable_folder =
                             getenv_default env ''REMARKABLE_FOLDER'' (str_of ''/Instapaper''),
                           batch_size = n,
                           processed_log =
                             expanduser env (getenv_default env ''PROCESSED_LOG''
                               (str_of ''~/.instapaper_to_remarkable_processed.json''))\<rparr>, s))
            | _ \<Rightarrow> (Inl (Uncaught KeyError), s)))"

definition check_rmapi :: "env \<Rightarrow> state \<Rightarrow> abort option \<times> state" where
  "check_rmapi env s =
     (if \<not> which_rmapi env then
        (Some (SysExit 1),
         logw ERROR (''rmapi not found. Install via: brew install ddvk/tap/rmapi '' @
                     ''or download from https://github.com/ddvk/rmapi/releases'') [] s)
      else (None, s))"

text \<open>
  \<open>instapaper_auth\<close>: any status but 200 stops the run with status 1; otherwise the
  token pair is read from the url-encoded body.  The session is the token pair.
\<close>

definition first_of :: "(pystr \<times> pystr list) list \<Rightarrow> pystr \<Rightarrow> exn + pystr" where
  "first_of creds k =
     (case map_of creds k of
        None \<Rightarrow> Inl KeyError
      | Some [] \<Rightarrow> Inl IndexError
      | Some (v # _) \<Rightarrow> Inr v)"

definition instapaper_auth :: "env \<Rightarrow> config \<Rightarrow> state \<Rightarrow> (abort + pystr \<times> pystr) \<times> state" where
  "instapaper_auth env config s =
     (let r = access_token_post env (clock s) config;
          s1 = record_top (AccessTokenPost r) s
      in case r of
           Inl e \<Rightarrow> (Inl (Uncaught e), s1)
         | Inr resp \<Rightarrow>
             if status_code resp \<noteq> 200 then
               (Inl (SysExit 1),
                logw ERROR ''Instapaper auth failed (%s): %s''
                  [PInt (status_code resp), PStr (resp_text resp)] s1)
             else
               (let creds = parse_qs env (resp_text resp)
                in case first_of creds (str_of ''oauth_token'') of
                     Inl e \<Rightarrow> (Inl (Uncaught e), s1)
                   | Inr token \<Rightarrow>
                       (case first_of creds (str_of ''oauth_token_secret'') of
                          Inl e \<Rightarrow> (Inl (Uncaught e), s1)
                        | Inr token_secret \<Rightarrow> (Inr (token, token_secret), s1))))"

section \<open>Listing the bookmarks\<close>

text \<open>
  \<^verbatim>\<open>
  def fetch_bookmarks(session, limit=25):
      resp = session.post(..., data={"folder_id": "unread", "limit": limit})
      if resp.status_code != 200:
          log.error("Failed to fetch bookmarks (%s): %s", resp.status_code, resp.text)
          return []
      data = resp.json()
      return [item for item in data if item.get("type") == "bookmark"]
  \<close>
\<close>

definition fetch_bookmarks ::
  "env \<Rightarrow> pystr \<times> pystr \<Rightarrow> int \<Rightarrow> state \<Rightarrow> (exn + item list) \<times> state" where
  "fetch_bookmarks env session limit s =
     (let r = bookmarks_list_post env (clock s) session limit;
          s1 = record_top (ListPost limit r) s
      in case r of
           Inl e \<Rightarrow> (Inl e, s1)
         | Inr resp \<Rightarrow>
             if status_code resp \<noteq> 200 then
               (Inr [],
                logw ERROR ''Failed to fetch bookmarks (%s): %s''
                  [PInt (status_code resp), PStr (resp_text resp)] s1)
             else
               (case resp_json resp of
                  Inl e \<Rightarrow> (Inl e, s1)
                | Inr data \<Rightarrow>
                    (Inr (filter (\<lambda>item. rec_type item = Some (PStr (str_of ''bookmark''))) data),
                     s1)))"

section \<open>The ledger\<close>

text \<open>
  \<^verbatim>\<open>
  def load_processed(path):
      if path.exists():
          return json.loads(path.read_text())
      return {}

  def save_processed(path, processed):
      path.parent.mkdir(parents=True, exist_ok=True)
      path.write_text(json.dumps(processed, indent=2))
  \<close>
  The ledger is a \<open>dict\<close> from id strings to timestamps, kept as an association list in
  insertion order; \<open>json_loads\<close> gives the decoded ledger or the exception of
  \<open>json.loads\<close>, and a file that holds JSON other than such an object is outside the
  model.  Reading and writing the ledger file are taken to succeed; the parent directories
  are not tracked.
\<close>

fun dict_set :: "'k \<Rightarrow> 'v \<Rightarrow> ('k \<times> 'v) list \<Rightarrow> ('k \<times> 'v) list" where
  "dict_set k v [] = [(k, v)]"
| "dict_set k v ((k', v') # d) =
     (if k' = k then (k', v) # d else (k', v') # dict_set k v d)"

definition dict_in :: "'k \<Rightarrow> ('k \<times> 'v) list \<Rightarrow> bool" where
  "dict_in k d \<longleftrightarrow> k \<in> set (map fst d)"

definition load_processed :: "env \<Rightarrow> pystr \<Rightarrow> state \<Rightarrow> exn + ledger" where
  "load_processed env path s =
     (case files s path of
        Some txt \<Rightarrow> json_loads env txt
      | None \<Rightarrow> Inr [])"

definition save_processed :: "env \<Rightarrow> pystr \<Rightarrow> ledger \<Rightarrow> state \<Rightarrow> state" where
  "save_processed env path processed' s =
     (let txt = json_dumps env processed'
      in record_call (WriteText path txt) (s\<lparr>files := (files s)(path \<mapsto> txt)\<rparr>))"

section \<open>Rendering and delivery\<close>

text \<open>
  \<open>article_to_pdf\<close>: \<open>fetch_url\<close> and \<open>extract\<close> return a string or \<open>None\<close>, and
  \<open>not html\<close> holds for \<open>None\<close> and for the empty string.  Each of the three library
  calls may raise; nothing is caught here.
\<close>

definition article_to_pdf ::
  "env \<Rightarrow> pyval \<Rightarrow> pyval \<Rightarrow> pystr \<Rightarrow> state \<Rightarrow> (exn + bool) \<times> state" where
  "article_to_pdf env title' url' output_path s =
     (let r = fetch_url env (clock s) url';
          s1 = record_call (FetchUrl url' r) s
      in case r of
           Inl e \<Rightarrow> (Inl e, s1)
         | Inr None \<Rightarrow> (Inr False, logw WARNING ''Could not fetch HTML for: %s'' [url'] s1)
         | Inr (Some html) \<Rightarrow>
             if html = [] then
               (Inr False, logw WARNING ''Could not fetch HTML for: %s'' [url'] s1)
             else
               (let r2 = extract_content env (clock s1) html;
                    s2 = record_call (Extract html r2) s1
                in case r2 of
                     Inl e \<Rightarrow> (Inl e, s2)
                   | Inr None \<Rightarrow>
                       (Inr False, logw WARNING ''Could not extract content for: %s'' [url'] s2)
                   | Inr (Some content) \<Rightarrow>
                       if content = [] then
                         (Inr False,
                          logw WARNING ''Could not extract content for: %s'' [url'] s2)
                       else
                         (let content' = normalize_content (alnum env) content;
                              full_html = HTML_TEMPLATE EREADER_CSS content';
                              r3 = write_pdf env (clock s2) full_html url' output_path;
                              s3 = record_call (WritePdf full_html url' output_path r3) s2
                          in case r3 of
                               Some e \<Rightarrow> (Inl e, s3)
                             | None \<Rightarrow> (Inr True, s3))))"

text \<open>
  \<open>upload_to_remarkable\<close>: the result of \<open>rmapi mkdir\<close> is ignored; a non-zero status
  of \<open>rmapi put\<close> is logged and reported as \<open>False\<close>.
\<close>

definition upload_to_remarkable ::
  "env \<Rightarrow> pystr \<Rightarrow> pystr \<Rightarrow> state \<Rightarrow> (exn + bool) \<times> state" where
  "upload_to_remarkable env pdf_path folder s =
     (let r = rmapi_mkdir env (clock s) folder;
          s1 = record_call (RmapiMkdir folder r) s
      in case r of
           Some e \<Rightarrow> (Inl e, s1)
         | None \<Rightarrow>
             (let r2 = rmapi_put env (clock s1) pdf_path folder;
                  s2 = record_call (RmapiPut pdf_path folder r2) s1
              in case r2 of
                   Inl e \<Rightarrow> (Inl e, s2)
                 | Inr (returncode, out, err) \<Rightarrow>
                     if returncode \<noteq> 0 then
                       (Inr False,
                        logw ERROR ''rmapi upload failed: %s %s'' [PStr out, PStr err] s2)
                     else (Inr True, s2)))"

section \<open>The run\<close>

text \<open>\<open>os.path.join\<close> of two components; code point 47 is the slash.\<close>

definition path_join :: "pystr \<Rightarrow> pystr \<Rightarrow> pystr" where
  "path_join a b =
     (if b \<noteq> [] \<and> hd b = 47 then b
      else if a = [] \<or> last a = 47 then a @ b
      else a @ [47] @ b)"

text \<open>
  The \<open>try\<close> statement inside the loop (lines 262 to 273): render, upload, and on
  success write the ledger entry and save the ledger at once.  \<open>continue\<close> after a failed
  rendering and \<open>except Exception\<close> both end the iteration without an exception.
\<close>

definition try_deliver ::
  "env \<Rightarrow> config \<Rightarrow> pystr \<Rightarrow> pyval \<Rightarrow> pyval \<Rightarrow> pystr \<Rightarrow> state \<Rightarrow> state" where
  "try_deliver env config bid title' url' pdf_path s1 =
     (case article_to_pdf env title' url' pdf_path s1 of
        (Inl e, s2) \<Rightarrow>
          log_exception ''Error processing bookmark %s (%s)'' [PStr bid, title'] e s2
      | (Inr False, s2) \<Rightarrow> s2
      | (Inr True, s2) \<Rightarrow>
          (case upload_to_remarkable env pdf_path (remarkable_folder config) s2 of
             (Inl e, s3) \<Rightarrow>
               log_exception ''Error processing bookmark %s (%s)'' [PStr bid, title'] e s3
           | (Inr True, s3) \<Rightarrow>
               (let s4 = s3\<lparr>processed := dict_set bid (now_iso env (clock s3)) (processed s3)\<rparr>;
                    s5 = save_processed env (processed_log config) (processed s4) s4
                in logw INFO ''Uploaded: %s'' [title'] s5)
           | (Inr False, s3) \<Rightarrow>
               logw ERROR ''Upload failed, will retry next run: %s'' [title'] s3))"

text \<open>
  The body of the \<open>for\<close> loop of \<open>main\<close>.  The lines before the inner \<open>try\<close> are not
  protected: an exception there (a missing \<open>bookmark_id\<close>, a title that is not a string)
  leaves the loop, and is the \<open>Some\<close> result.  \<open>dict_get v d\<close> is
  \<open>bookmark.get(key, d)\<close> for the value \<open>v\<close> stored under the key, if any.
\<close>

definition dict_get :: "'a option \<Rightarrow> 'a \<Rightarrow> 'a" where
  "dict_get v d = (case v of None \<Rightarrow> d | Some x \<Rightarrow> x)"

definition process_bookmark ::
  "env \<Rightarrow> config \<Rightarrow> pystr \<Rightarrow> item \<Rightarrow> state \<Rightarrow> exn option \<times> state" where
  "process_bookmark env config tmpdir bookmark s =
     (case bookmark_id bookmark of
        None \<Rightarrow> (Some KeyError, s)
      | Some idv \<Rightarrow>
          (let bid = py_str idv;
               title' = dict_get (title bookmark) (PStr (str_of ''Untitled''));
               url' = dict_get (url bookmark) (PStr []);
               s1 = logw INFO ''Processing: %s'' [title'] (s\<lparr>current := Some bid\<rparr>)
           in case sanitize_filename title' of
                Inl e \<Rightarrow> (Some e, s1)
              | Inr name \<Rightarrow>
                  (let filename = name @ str_of ''.pdf'';
                       pdf_path = path_join tmpdir filename
                   in (None, try_deliver env config bid title' url' pdf_path s1))))"

fun process_all ::
  "env \<Rightarrow> config \<Rightarrow> pystr \<Rightarrow> item list \<Rightarrow> state \<Rightarrow> exn option \<times> state" where
  "process_all env config tmpdir [] s = (None, s)"
| "process_all env config tmpdir (b # bs) s =
     (case process_bookmark env config tmpdir b s of
        (Some e, s') \<Rightarrow> (Some e, s')
      | (None, s') \<Rightarrow> process_all env config tmpdir bs s')"

text \<open>
  \<open>[b for b in bookmarks if str(b["bookmark_id"]) not in processed]\<close>: the subscript
  raises \<open>KeyError\<close> at the first record without the key.
\<close>

definition new_bookmarks_of :: "item list \<Rightarrow> ledger \<Rightarrow> exn + item list" where
  "new_bookmarks_of bookmarks processed' =
     (if \<exists>b \<in> set bookmarks. bookmark_id b = None then Inl KeyError
      else Inr (filter (\<lambda>b. \<not> dict_in (py_str (the (bookmark_id b))) processed') bookmarks))"

definition do_mkdtemp :: "env \<Rightarrow> state \<Rightarrow> (exn + pystr) \<times> state" where
  "do_mkdtemp env s =
     (let r = mkdtemp env (clock s);
          s1 = record_top (Mkdtemp r) s
      in case r of
           Inl e \<Rightarrow> (Inl e, s1)
         | Inr d \<Rightarrow> (Inr d, s1\<lparr>dirs := d # dirs s1\<rparr>))"

text \<open>
  \<open>shutil.rmtree(tmpdir, ignore_errors=True)\<close> on the directory this process created is
  taken to remove it.
\<close>

definition rmtree :: "pystr \<Rightarrow> state \<Rightarrow> state" where
  "rmtree d s = record_top (Rmtree d) (s\<lparr>dirs := removeAll d (dirs s)\<rparr>)"

text \<open>
  \<open>main\<close> from \<open>log.info("Fetching unread bookmarks...")\<close> on, with the configuration
  and the session that the startup produced.  The \<open>finally\<close> clause runs \<open>rmtree\<close>
  whether the loop ended or an exception left it; the exception then goes on upward.
\<close>

definition main_sync ::
  "env \<Rightarrow> config \<Rightarrow> pystr \<times> pystr \<Rightarrow> state \<Rightarrow> abort option \<times> state" where
  "main_sync env config session s0 =
     (let s1 = logw INFO ''Fetching unread bookmarks...'' [] s0
      in case fetch_bookmarks env session (batch_size config) s1 of
           (Inl e, s2) \<Rightarrow> (Some (Uncaught e), s2)
         | (Inr bookmarks, s2) \<Rightarrow>
             if bookmarks = [] then (None, logw INFO ''No bookmarks found.'' [] s2)
             else
               (case load_processed env (processed_log config) s2 of
                  Inl e \<Rightarrow> (Some (Uncaught e), s2)
                | Inr loaded \<Rightarrow>
                    (let s3 = s2\<lparr>processed := loaded\<rparr>
                     in case new_bookmarks_of bookmarks loaded of
                          Inl e \<Rightarrow> (Some (Uncaught e), s3)
                        | Inr new_bookmarks \<Rightarrow>
                            if new_bookmarks = [] then
                              (None, logw INFO ''No new bookmarks to process.'' [] s3)
                            else
                              (let s4 = logw INFO ''Processing %d new bookmark(s)...''
                                          [PInt (int (length new_bookmarks))] s3
                               in case do_mkdtemp env s4 of
                                    (Inl e, s5) \<Rightarrow> (Some (Uncaught e), s5)
                                  | (Inr tmpdir, s5) \<Rightarrow>
                                      (case process_all env config tmpdir new_bookmarks s5 of
                                         (r, s6) \<Rightarrow>
                                           (let s7 = rmtree tmpdir s6
                                            in case r of
                                                 Some e \<Rightarrow> (Some (Uncaught e), s7)
                                               | None \<Rightarrow>
                                                   (None,
                                                    logw INFO ''Done. Processed %d bookmark(s).''
                                                      [PInt (int (length (processed s7)))] s7)))))))"

definition main :: "env \<Rightarrow> state \<Rightarrow> abort option \<times> state" where
  "main env s =
     (case load_config env s of
        (Inl a, s1) \<Rightarrow> (Some a, s1)
      | (Inr config, s1) \<Rightarrow>
          (case check_rmapi env s1 of
             (Some a, s2) \<Rightarrow> (Some a, s2)
           | (None, s2) \<Rightarrow>
               (let s3 = logw INFO ''Authenticating with Instapaper...'' [] s2
                in case instapaper_auth env config s3 of
                     (Inl a, s4) \<Rightarrow> (Some a, s4)
                   | (Inr session, s4) \<Rightarrow> main_sync env config session s4)))"

section \<open>Reading the trace\<close>

text \<open>
  The calls of the four per-item stages (fetch, extract, render, upload), the exception a
  recorded call raised, an upload that the tool reported as done, the fetches among some
  calls (with the id and the URL of each), and the calls one state has recorded beyond an
  earlier one.
\<close>

fun is_item_call :: "call \<Rightarrow> bool" where
  "is_item_call (FetchUrl u r) = True"
| "is_item_call (Extract h r) = True"
| "is_item_call (WritePdf h u p r) = True"
| "is_item_call (RmapiMkdir f r) = True"
| "is_item_call (RmapiPut p f r) = True"
| "is_item_call _ = False"

fun raised_of :: "call \<Rightarrow> exn option" where
  "raised_of (FetchUrl u (Inl e)) = Some e"
| "raised_of (Extract h (Inl e)) = Some e"
| "raised_of (WritePdf h u p (Some e)) = Some e"
| "raised_of (RmapiMkdir f (Some e)) = Some e"
| "raised_of (RmapiPut p f (Inl e)) = Some e"
| "raised_of _ = None"

fun put_ok :: "call \<Rightarrow> bool" where
  "put_ok (RmapiPut p f (Inr (returncode, out, err))) = (returncode = 0)"
| "put_ok _ = False"

fun fetches :: "(pystr option \<times> call) list \<Rightarrow> (pystr option \<times> pyval) list" where
  "fetches [] = []"
| "fetches ((t, FetchUrl u r) # cs) = (t, u) # fetches cs"
| "fetches (c # cs) = fetches cs"

fun log_fmt :: "log_entry \<Rightarrow> string" where
  "log_fmt (Log l fmt args e) = fmt"

text \<open>
  The log records one state has beyond an earlier one, the summary record of the end of
  the run, and the states between which no summary was logged.
\<close>

definition logs_since :: "state \<Rightarrow> state \<Rightarrow> log_entry list" where
  "logs_since s s' = drop (length (logs s)) (logs s')"

definition is_summary :: "log_entry \<Rightarrow> bool" where
  "is_summary e \<longleftrightarrow> log_fmt e = ''Done. Processed %d bookmark(s).''"

definition no_summary :: "state \<Rightarrow> state \<Rightarrow> bool" where
  "no_summary s s' \<longleftrightarrow> (\<exists>l. logs s' = logs s @ l \<and> (\<forall>e \<in> set l. \<not> is_summary e))"

text \<open>The id string of a record, as the loop computes it.\<close>

definition item_id :: "item \<Rightarrow> pystr" where
  "item_id b = py_str (the (bookmark_id b))"

text \<open>The calls the loop makes: those of the four stages and the ledger write.\<close>

definition loop_call :: "config \<Rightarrow> call \<Rightarrow> bool" where
  "loop_call config c \<longleftrightarrow>
     is_item_call c \<or> (\<exists>body. c = WriteText (processed_log config) body)"

definition calls_since :: "state \<Rightarrow> state \<Rightarrow> (pystr option \<times> call) list" where
  "calls_since s s' = drop (length (trace s)) (trace s')"

text \<open>Calls of the four stages that returned and were not a finished upload.\<close>

definition quiet :: "(pystr option \<times> call) list \<Rightarrow> bool" where
  "quiet cs \<longleftrightarrow>
     (\<forall>x \<in> set cs. is_item_call (snd x) \<and> raised_of (snd x) = None \<and> \<not> put_ok (snd x))"

fun is_str :: "pyval \<Rightarrow> bool" where
  "is_str (PStr t) = True"
| "is_str _ = False"

text \<open>A record as the data model has it: an id, and a title that is a string if present.\<close>

definition well_formed :: "item \<Rightarrow> bool" where
  "well_formed b \<longleftrightarrow>
     bookmark_id b \<noteq> None \<and> is_str (dict_get (title b) (PStr (str_of ''Untitled'')))"

section \<open>Example runs\<close>

text \<open>
  A concrete environment on which the properties below are exercised.  The ledger file
  \<open>/l\<close> holds three entries of earlier runs, for the ids 1, 8 and 9.  The listing
  returns a record that is not a bookmark and four bookmarks: 1 is in the ledger, 2 is
  rendered and uploaded, fetching 3 raises, and the upload tool rejects 4.
\<close>

text \<open>For text in ASCII the table of the other alphanumeric characters is never asked.\<close>

definition no_alnum :: "nat \<Rightarrow> bool" where
  "no_alnum c \<longleftrightarrow> False"

definition bm :: "int \<Rightarrow> pyval \<Rightarrow> string \<Rightarrow> item" where
  "bm i t u = \<lparr>rec_type = Some (PStr (str_of ''bookmark'')), bookmark_id = Some (PInt i),
               title = Some t, url = Some (PStr (str_of u))\<rparr>"

definition listing0 :: "item list" where
  "listing0 = [\<lparr>rec_type = Some (PStr (str_of ''user'')), bookmark_id = None,
                 title = None, url = None\<rparr>,
               bm 1 (PStr (str_of ''A'')) ''a'', bm 2 (PStr (str_of ''B'')) ''b'',
               bm 3 (PStr (str_of ''C'')) ''c'', bm 4 (PStr (str_of ''D'')) ''d'']"

definition ledger0 :: ledger where
  "ledger0 = [(str_of ''1'', str_of ''T0''), (str_of ''8'', str_of ''T0''),
              (str_of ''9'', str_of ''T0'')]"

definition env0 :: env where
  "env0 = \<lparr>
     getenv = (\<lambda>k. if k \<in> set required then Some (str_of ''x'')
                    else if k = ''PROCESSED_LOG'' then Some (str_of ''/l'') else None),
     py_int = (\<lambda>t. if t = str_of ''25'' then Inr 25 else Inl ValueError),
     expanduser = (\<lambda>p. p),
     which_rmapi = True,
     access_token_post = (\<lambda>n c. Inr \<lparr>status_code = 200, resp_text = str_of ''q'',
                                       resp_json = Inl ValueError\<rparr>),
     parse_qs = (\<lambda>t. [(str_of ''oauth_token'', [str_of ''a'']),
                       (str_of ''oauth_token_secret'', [str_of ''b''])]),
     bookmarks_list_post = (\<lambda>n session limit.
        Inr \<lparr>status_code = 200, resp_text = [], resp_json = Inr listing0\<rparr>),
     json_loads = (\<lambda>t. if t = str_of ''L'' then Inr ledger0 else Inl JSONDecodeError),
     json_dumps = (\<lambda>d. concat (map (\<lambda>(k, v). k @ [58] @ v @ [59]) d)),
     fetch_url = (\<lambda>n u. if u = PStr (str_of ''c'') then Inl (LibError 7)
                          else Inr (Some (str_of ''h''))),
     extract_content = (\<lambda>n h. Inr (Some (str_of ''x''))),
     write_pdf = (\<lambda>n h u p. None),
     rmapi_mkdir = (\<lambda>n f. None),
     rmapi_put = (\<lambda>n p f. if p = str_of ''/t/D.pdf'' then Inr (1, [], str_of ''no'')
                           else Inr (0, [], [])),
     now_iso = (\<lambda>n. str_of ''T1''),
     mkdtemp = (\<lambda>n. Inr (str_of ''/t'')),
     alnum = no_alnum\<rparr>"

definition config0 :: config where
  "config0 = \<lparr>consumer_key = str_of ''x'', consumer_secret = str_of ''x'',
              username = str_of ''x'', password = str_of ''x'',
              remarkable_folder = str_of ''/Instapaper'', batch_size = 25,
              processed_log = str_of ''/l''\<rparr>"

definition state0 :: state where
  "state0 = \<lparr>processed = [], logs = [], trace = [], current = None,
             files = [str_of ''/l'' \<mapsto> str_of ''L''], dirs = [], clock = 0\<rparr>"

text \<open>The same environment with a listing call that the service answers with 503.\<close>

definition env_503 :: env where
  "env_503 = env0\<lparr>bookmarks_list_post := (\<lambda>n session limit.
     Inr \<lparr>status_code = 503, resp_text = str_of ''busy'', resp_json = Inl ValueError\<rparr>)\<rparr>"

text \<open>
  The same environment with a listing of two bookmarks, the second with a title that is
  \<open>None\<close>: \<open>sanitize_filename\<close> raises on it, outside the inner \<open>try\<close>.
\<close>

definition env_null_title :: env where
  "env_null_title = env0\<lparr>bookmarks_list_post := (\<lambda>n session limit.
     Inr \<lparr>status_code = 200, resp_text = [],
          resp_json = Inr [bm 2 (PStr (str_of ''B'')) ''b'', bm 5 PNone ''e'']\<rparr>)\<rparr>"


definition state_bad_ledger :: state where
  "state_bad_ledger = state0\<lparr>files := [str_of ''/l'' \<mapsto> str_of ''{'']\<rparr>"

text \<open>A title of 119 letters \<open>a\<close>, a space and a \<open>b\<close>: 121 characters.\<close>

definition long_title :: pystr where
  "long_title = replicate 119 97 @ [32, 98]"

section \<open>Properties\<close>

text \<open>The equations that evaluate the example runs.\<close>

lemmas ex_defs = env0_def state0_def config0_def listing0_def ledger0_def bm_def
lemmas str_defs = str_of_def remove_forbidden_def forbidden_def is_space_def strip_def
  path_join_def str_int_def str_nat.simps dict_in_def dict_get_def item_id_def
lemmas run_defs = main_def load_config_def check_rmapi_def instapaper_auth_def main_sync_def
  fetch_bookmarks_def load_processed_def new_bookmarks_of_def do_mkdtemp_def rmtree_def
  process_bookmark_def try_deliver_def article_to_pdf_def upload_to_remarkable_def
  save_processed_def required_def getenv_default_def first_of_def calls_since_def Let_def


subsection \<open>Selectors of the state after the basic steps\<close>

lemma logw_simps [simp]:
  "processed (logw l f a s) = processed s"
  "logs (logw l f a s) = logs s @ [Log l f a None]"
  "trace (logw l f a s) = trace s"
  "current (logw l f a s) = current s"
  "files (logw l f a s) = files s"
  "dirs (logw l f a s) = dirs s"
  "clock (logw l f a s) = clock s"
  by (simp_all add: logw_def)

lemma log_exception_simps [simp]:
  "processed (log_exception f a e s) = processed s"
  "logs (log_exception f a e s) = logs s @ [Log ERROR f a (Some e)]"
  "trace (log_exception f a e s) = trace s"
  "current (log_exception f a e s) = current s"
  "files (log_exception f a e s) = files s"
  "dirs (log_exception f a e s) = dirs s"
  "clock (log_exception f a e s) = clock s"
  by (simp_all add: log_exception_def)

lemma record_call_simps [simp]:
  "processed (record_call c s) = processed s"
  "logs (record_call c s) = logs s"
  "trace (record_call c s) = trace s @ [(current s, c)]"
  "current (record_call c s) = current s"
  "files (record_call c s) = files s"
  "dirs (record_call c s) = dirs s"
  "clock (record_call c s) = Suc (clock s)"
  by (simp_all add: record_call_def)

lemma record_top_simps [simp]:
  "processed (record_top c s) = processed s"
  "logs (record_top c s) = logs s"
  "trace (record_top c s) = trace s @ [(None, c)]"
  "current (record_top c s) = current s"
  "files (record_top c s) = files s"
  "dirs (record_top c s) = dirs s"
  "clock (record_top c s) = Suc (clock s)"
  by (simp_all add: record_top_def)

lemma calls_since_append [simp]: "trace s' = trace s @ new \<Longrightarrow> calls_since s s' = new"
  by (simp add: calls_since_def)

lemma quiet_append [simp]: "quiet (xs @ ys) \<longleftrightarrow> quiet xs \<and> quiet ys"
  by (auto simp add: quiet_def)

lemma quiet_Nil [simp]: "quiet []"
  by (simp add: quiet_def)

lemma fetches_append [simp]: "fetches (xs @ ys) = fetches xs @ fetches ys"
  by (induction xs rule: fetches.induct) simp_all

lemma fetches_put_ok: "put_ok c \<Longrightarrow> fetches ((t, c) # cs) = fetches cs"
  by (cases c) simp_all

subsection \<open>Rendering and upload: what one call does to the state\<close>

lemma article_to_pdf_frame:
  assumes "article_to_pdf env t u p s = (r, s')"
  shows "processed s' = processed s \<and> files s' = files s \<and> dirs s' = dirs s \<and>
         current s' = current s"
  using assms
  by (auto simp add: article_to_pdf_def Let_def split: sum.splits if_splits option.splits)

lemma article_to_pdf_trace:
  assumes "article_to_pdf env t u p s = (r, s')"
  shows "\<exists>new. trace s' = trace s @ new \<and> new \<noteq> [] \<and>
           fetches new = [(current s, u)] \<and>
           (\<forall>x \<in> set new. fst x = current s) \<and>
           (case r of
              Inl e \<Rightarrow> quiet (butlast new) \<and> is_item_call (snd (last new)) \<and>
                       raised_of (snd (last new)) = Some e \<and> \<not> put_ok (snd (last new))
            | Inr b \<Rightarrow> quiet new)"
  using assms
  by (auto simp add: article_to_pdf_def Let_def quiet_def
           split: sum.splits if_splits option.splits)

lemma article_to_pdf_logs:
  assumes "article_to_pdf env t u p s = (r, s')"
  shows "(r = Inr True \<or> (\<exists>e. r = Inl e)) \<longrightarrow> logs s' = logs s"
  using assms
  by (auto simp add: article_to_pdf_def Let_def split: sum.splits if_splits option.splits)

lemma upload_frame:
  assumes "upload_to_remarkable env p f s = (r, s')"
  shows "processed s' = processed s \<and> files s' = files s \<and> dirs s' = dirs s \<and>
         current s' = current s"
  using assms
  by (auto simp add: upload_to_remarkable_def Let_def
           split: sum.splits if_splits option.splits prod.splits)

lemma upload_trace:
  assumes "upload_to_remarkable env p f s = (r, s')"
  shows "\<exists>new. trace s' = trace s @ new \<and> new \<noteq> [] \<and> fetches new = [] \<and>
           (\<forall>x \<in> set new. fst x = current s) \<and>
           (case r of
              Inl e \<Rightarrow> quiet (butlast new) \<and> is_item_call (snd (last new)) \<and>
                       raised_of (snd (last new)) = Some e \<and> \<not> put_ok (snd (last new))
            | Inr True \<Rightarrow> (\<exists>pre put. new = pre @ [(current s, put)] \<and> quiet pre \<and> put_ok put)
            | Inr False \<Rightarrow> quiet new)"
  using assms
  by (auto simp add: upload_to_remarkable_def Let_def quiet_def
           split: sum.splits if_splits option.splits prod.splits)

lemma upload_logs:
  assumes "upload_to_remarkable env p f s = (r, s')"
  shows "(r = Inr True \<or> (\<exists>e. r = Inl e)) \<longrightarrow> logs s' = logs s"
  using assms
  by (auto simp add: upload_to_remarkable_def Let_def
           split: sum.splits if_splits option.splits prod.splits)

subsection \<open>The try statement\<close>

lemma try_deliver_cases [consumes 0, case_names pdf_raised pdf_false up_raised up_false delivered]:
  obtains
    e s2 where
      "article_to_pdf env t u p s = (Inl e, s2)"
      "try_deliver env config bid t u p s =
         log_exception ''Error processing bookmark %s (%s)'' [PStr bid, t] e s2"
  | s2 where
      "article_to_pdf env t u p s = (Inr False, s2)"
      "try_deliver env config bid t u p s = s2"
  | s2 e s3 where
      "article_to_pdf env t u p s = (Inr True, s2)"
      "upload_to_remarkable env p (remarkable_folder config) s2 = (Inl e, s3)"
      "try_deliver env config bid t u p s =
         log_exception ''Error processing bookmark %s (%s)'' [PStr bid, t] e s3"
  | s2 s3 where
      "article_to_pdf env t u p s = (Inr True, s2)"
      "upload_to_remarkable env p (remarkable_folder config) s2 = (Inr False, s3)"
      "try_deliver env config bid t u p s =
         logw ERROR ''Upload failed, will retry next run: %s'' [t] s3"
  | s2 s3 where
      "article_to_pdf env t u p s = (Inr True, s2)"
      "upload_to_remarkable env p (remarkable_folder config) s2 = (Inr True, s3)"
      "try_deliver env config bid t u p s =
         logw INFO ''Uploaded: %s'' [t]
           (save_processed env (processed_log config)
              (dict_set bid (now_iso env (clock s3)) (processed s3))
              (s3\<lparr>processed := dict_set bid (now_iso env (clock s3)) (processed s3)\<rparr>))"
proof (cases "article_to_pdf env t u p s")
  case (Pair r s2)
  show ?thesis
  proof (cases r)
    case (Inl e)
    with Pair show ?thesis using that(1) by (simp add: try_deliver_def)
  next
    case (Inr ok)
    show ?thesis
    proof (cases ok)
      case False
      with Pair Inr show ?thesis using that(2) by (simp add: try_deliver_def)
    next
      case True
      show ?thesis
      proof (cases "upload_to_remarkable env p (remarkable_folder config) s2")
        case up: (Pair r' s3)
        show ?thesis
        proof (cases r')
          case (Inl e)
          with Pair Inr True up show ?thesis using that(3) by (simp add: try_deliver_def)
        next
          case ur: (Inr ok')
          show ?thesis
          proof (cases ok')
            case False
            with Pair Inr True up ur show ?thesis using that(4) by (simp add: try_deliver_def)
          next
            case t: True
            with Pair Inr True up ur show ?thesis using that(5)
              by (simp add: try_deliver_def Let_def)
          qed
        qed
      qed
    qed
  qed
qed


lemma save_processed_simps [simp]:
  "processed (save_processed env path d s) = processed s"
  "logs (save_processed env path d s) = logs s"
  "trace (save_processed env path d s) = trace s @ [(current s, WriteText path (json_dumps env d))]"
  "current (save_processed env path d s) = current s"
  "files (save_processed env path d s) = (files s)(path \<mapsto> json_dumps env d)"
  "dirs (save_processed env path d s) = dirs s"
  by (simp_all add: save_processed_def Let_def)


lemma try_deliver_frame:
  "dirs (try_deliver env config bid t u p s) = dirs s \<and>
   current (try_deliver env config bid t u p s) = current s"
  by (cases rule: try_deliver_cases [of env t u p s config bid])
     (auto dest!: article_to_pdf_frame upload_frame)



lemma try_deliver_shape:
  assumes "s' = try_deliver env config bid t u p s"
  shows "\<exists>new. trace s' = trace s @ new \<and> new \<noteq> [] \<and>
      fetches new = [(current s, u)] \<and>
      (\<forall>x \<in> set new. fst x = current s) \<and>
      ((\<exists>e. quiet (butlast new) \<and> is_item_call (snd (last new)) \<and>
            raised_of (snd (last new)) = Some e \<and> \<not> put_ok (snd (last new)) \<and>
            processed s' = processed s \<and> files s' = files s \<and>
            logs s' = logs s @ [Log ERROR ''Error processing bookmark %s (%s)'' [PStr bid, t] (Some e)])
       \<or> (quiet new \<and> processed s' = processed s \<and> files s' = files s)
       \<or> (\<exists>pre put n. new = pre @ [(current s, put),
                (current s, WriteText (processed_log config) (json_dumps env (processed s')))] \<and>
            quiet pre \<and> put_ok put \<and>
            processed s' = dict_set bid (now_iso env n) (processed s) \<and>
            files s' = (files s)(processed_log config \<mapsto> json_dumps env (processed s'))))"
proof (cases rule: try_deliver_cases [of env t u p s config bid])
  case (pdf_raised e s2)
  from article_to_pdf_trace [OF pdf_raised(1)] obtain n1 where
    n1: "trace s2 = trace s @ n1" "n1 \<noteq> []" "fetches n1 = [(current s, u)]"
      "\<forall>x \<in> set n1. fst x = current s"
      "quiet (butlast n1)" "is_item_call (snd (last n1))"
      "raised_of (snd (last n1)) = Some e" "\<not> put_ok (snd (last n1))"
    by auto
  have f: "processed s2 = processed s" "files s2 = files s" "logs s2 = logs s"
    using article_to_pdf_frame [OF pdf_raised(1)] article_to_pdf_logs [OF pdf_raised(1)]
    by simp_all
  show ?thesis
    using n1 f by (intro exI [of _ n1]) (simp add: assms pdf_raised(2))
next
  case (pdf_false s2)
  from article_to_pdf_trace [OF pdf_false(1)] obtain n1 where
    n1: "trace s2 = trace s @ n1" "n1 \<noteq> []" "fetches n1 = [(current s, u)]"
      "\<forall>x \<in> set n1. fst x = current s" "quiet n1"
    by auto
  have f: "processed s2 = processed s" "files s2 = files s"
    using article_to_pdf_frame [OF pdf_false(1)] by simp_all
  show ?thesis
    using n1 f by (intro exI [of _ n1]) (simp add: assms pdf_false(2))
next
  case (up_raised s2 e s3)
  from article_to_pdf_trace [OF up_raised(1)] obtain n1 where
    n1: "trace s2 = trace s @ n1" "n1 \<noteq> []" "fetches n1 = [(current s, u)]"
      "\<forall>x \<in> set n1. fst x = current s" "quiet n1"
    by auto
  have f1: "processed s2 = processed s" "files s2 = files s" "logs s2 = logs s"
      "current s2 = current s"
    using article_to_pdf_frame [OF up_raised(1)] article_to_pdf_logs [OF up_raised(1)]
    by simp_all
  from upload_trace [OF up_raised(2)] obtain n2 where
    n2: "trace s3 = trace s2 @ n2" "n2 \<noteq> []" "fetches n2 = []"
      "\<forall>x \<in> set n2. fst x = current s2"
      "quiet (butlast n2)" "is_item_call (snd (last n2))"
      "raised_of (snd (last n2)) = Some e" "\<not> put_ok (snd (last n2))"
    by auto
  have f2: "processed s3 = processed s2" "files s3 = files s2" "logs s3 = logs s2"
    using upload_frame [OF up_raised(2)] upload_logs [OF up_raised(2)] by simp_all
  show ?thesis
    using n1 n2 f1 f2
    by (intro exI [of _ "n1 @ n2"]) (auto simp add: assms up_raised(3) butlast_append)
next
  case (up_false s2 s3)
  from article_to_pdf_trace [OF up_false(1)] obtain n1 where
    n1: "trace s2 = trace s @ n1" "n1 \<noteq> []" "fetches n1 = [(current s, u)]"
      "\<forall>x \<in> set n1. fst x = current s" "quiet n1"
    by auto
  have f1: "processed s2 = processed s" "files s2 = files s" "current s2 = current s"
    using article_to_pdf_frame [OF up_false(1)] by simp_all
  from upload_trace [OF up_false(2)] obtain n2 where
    n2: "trace s3 = trace s2 @ n2" "fetches n2 = []"
      "\<forall>x \<in> set n2. fst x = current s2" "quiet n2"
    by auto
  have f2: "processed s3 = processed s2" "files s3 = files s2"
    using upload_frame [OF up_false(2)] by simp_all
  show ?thesis
    using n1 n2 f1 f2
    by (intro exI [of _ "n1 @ n2"]) (auto simp add: assms up_false(3))
next
  case (delivered s2 s3)
  from article_to_pdf_trace [OF delivered(1)] obtain n1 where
    n1: "trace s2 = trace s @ n1" "n1 \<noteq> []" "fetches n1 = [(current s, u)]"
      "\<forall>x \<in> set n1. fst x = current s" "quiet n1"
    by auto
  have f1: "processed s2 = processed s" "files s2 = files s" "current s2 = current s"
    using article_to_pdf_frame [OF delivered(1)] by simp_all
  from upload_trace [OF delivered(2)] obtain pre put where
    n2: "trace s3 = trace s2 @ pre @ [(current s2, put)]"
      "fetches (pre @ [(current s2, put)]) = []"
      "\<forall>x \<in> set (pre @ [(current s2, put)]). fst x = current s2" "quiet pre" "put_ok put"
    by auto
  have f2: "processed s3 = processed s2" "files s3 = files s2" "current s3 = current s2"
    using upload_frame [OF delivered(2)] by simp_all
  let ?d = "dict_set bid (now_iso env (clock s3)) (processed s)"
  let ?new = "n1 @ pre @ [(current s, put), (current s, WriteText (processed_log config) (json_dumps env ?d))]"
  have t: "trace s' = trace s @ ?new"
    using n1(1) n2(1) f1 f2 by (simp add: assms delivered(3))
  have p: "processed s' = ?d" "files s' = (files s)(processed_log config \<mapsto> json_dumps env ?d)"
    using f1 f2 by (simp_all add: assms delivered(3))
  have tags: "\<forall>x \<in> set ?new. fst x = current s"
    using n1(4) n2(3) f1 by auto
  have hd: "fetches ?new = [(current s, u)]"
    using n1(3) n2(2,5) by (simp add: fetches_put_ok)
  have third: "\<exists>pre' put' n. ?new = pre' @ [(current s, put'),
                (current s, WriteText (processed_log config) (json_dumps env (processed s')))] \<and>
            quiet pre' \<and> put_ok put' \<and>
            processed s' = dict_set bid (now_iso env n) (processed s) \<and>
            files s' = (files s)(processed_log config \<mapsto> json_dumps env (processed s'))"
    using n1(5) n2(4,5) p
    by (intro exI [of _ "n1 @ pre"] exI [of _ put] exI [of _ "clock s3"]) simp
  show ?thesis
    using t tags hd third by (intro exI [of _ ?new]) blast
qed


subsection \<open>Loading the ledger\<close>



text \<open>
  C9.  Where the ledger file exists and \<open>json.loads\<close> rejects its contents,
  \<open>load_processed\<close> raises that exception instead of returning a mapping: nothing in
  it catches the exception, and only the missing file gives the empty mapping.
\<close>

theorem load_processed_invalid_json:
  assumes "files s path = Some txt" and "json_loads env txt = Inl e"
  shows "load_processed env path s = Inl e"
  using assms by (simp add: load_processed_def)

theorem load_processed_invalid_json_witness:
  "files state_bad_ledger (str_of ''/l'') = Some (str_of ''{'') \<and>
   json_loads env0 (str_of ''{'') = Inl JSONDecodeError \<and>
   load_processed env0 (str_of ''/l'') state_bad_ledger = Inl JSONDecodeError"
  using load_processed_invalid_json
    [of state_bad_ledger "str_of ''/l''" "str_of ''{''" env0 JSONDecodeError]
  by (simp add: state_bad_ledger_def state0_def env0_def str_of_def)

subsection \<open>Listing\<close>

text \<open>
  C7.  When the listing call is answered with a status outside 200 to 299,
  \<open>fetch_bookmarks\<close> logs one error and returns the empty list, and the run that called
  it with the configured batch size returns normally.
\<close>

theorem fetch_bookmarks_non_2xx:
  assumes "bookmarks_list_post env (clock s) session limit = Inr resp"
    and "status_code resp < 200 \<or> 299 < status_code resp"
  shows "fst (fetch_bookmarks env session limit s) = Inr [] \<and>
         logs (snd (fetch_bookmarks env session limit s)) =
           logs s @ [Log ERROR ''Failed to fetch bookmarks (%s): %s''
                       [PInt (status_code resp), PStr (resp_text resp)] None] \<and>
         (limit = batch_size config \<longrightarrow> fst (main_sync env config session s) = None)"
  using assms by (auto simp add: fetch_bookmarks_def main_sync_def Let_def)

theorem fetch_bookmarks_non_2xx_witness:
  "bookmarks_list_post env_503 (clock state0) ([], []) 25 =
     Inr \<lparr>status_code = 503, resp_text = str_of ''busy'', resp_json = Inl ValueError\<rparr> \<and>
   fst (fetch_bookmarks env_503 ([], []) 25 state0) = Inr [] \<and>
   logs (snd (fetch_bookmarks env_503 ([], []) 25 state0)) =
     [Log ERROR ''Failed to fetch bookmarks (%s): %s'' [PInt 503, PStr (str_of ''busy'')] None] \<and>
   25 = batch_size config0 \<and>
   fst (main_sync env_503 config0 ([], []) state0) = None"
  using fetch_bookmarks_non_2xx [of env_503 state0 "([], [])" 25
    "\<lparr>status_code = 503, resp_text = str_of ''busy'', resp_json = Inl ValueError\<rparr>" config0]
  by (simp add: env_503_def env0_def state0_def config0_def)

subsection \<open>Filenames\<close>

lemma collapse_ws_no_space:
  "\<forall>c \<in> set xs. \<not> is_space c \<Longrightarrow> collapse_ws (xs @ ys) = xs @ collapse_ws ys"
  by (induction xs) auto

lemma collapse_ws_set: "set (collapse_ws s) \<subseteq> set s \<union> {32}"
  by (induction s rule: collapse_ws.induct) (auto dest: set_dropWhileD)

lemma collapse_ws_spaces: "c \<in> set (collapse_ws s) \<Longrightarrow> is_space c \<Longrightarrow> c = 32"
  by (induction s rule: collapse_ws.induct) (auto split: if_splits)

lemma collapse_ws_hd:
  "s \<noteq> [] \<Longrightarrow> \<not> is_space (hd s) \<Longrightarrow> collapse_ws s \<noteq> [] \<and> \<not> is_space (hd (collapse_ws s))"
  by (cases s) auto

lemma single_spaced_Cons:
  "single_spaced (a # xs) \<longleftrightarrow> (xs = [] \<or> \<not> (is_space a \<and> is_space (hd xs))) \<and> single_spaced xs"
  by (cases xs) auto

lemma collapse_ws_single_spaced: "single_spaced (collapse_ws s)"
proof (induction s rule: collapse_ws.induct)
  case 1
  show ?case by simp
next
  case (2 c cs)
  show ?case
  proof (cases "is_space c")
    case True
    let ?r = "dropWhile is_space cs"
    have "collapse_ws ?r = [] \<or> \<not> is_space (hd (collapse_ws ?r))"
    proof (cases "?r = []")
      case True
      then have "collapse_ws ?r = []"
        by (simp only: collapse_ws.simps)
      then show ?thesis ..
    next
      case False
      then have "\<not> is_space (hd ?r)"
        by (rule hd_dropWhile)
      with False show ?thesis
        using collapse_ws_hd [of ?r] by blast
    qed
    with True 2(1) show ?thesis
      by (simp add: single_spaced_Cons)
  next
    case False
    with 2(2) show ?thesis
      by (simp add: single_spaced_Cons)
  qed
qed

lemma single_spaced_tl: "single_spaced (a # xs) \<Longrightarrow> single_spaced xs"
  by (simp add: single_spaced_Cons)

lemma single_spaced_drop: "single_spaced xs \<Longrightarrow> single_spaced (drop n xs)"
proof (induction n arbitrary: xs)
  case 0
  then show ?case by simp
next
  case (Suc n)
  then show ?case
    by (cases xs) (auto dest: single_spaced_tl)
qed

lemma single_spaced_take: "single_spaced xs \<Longrightarrow> single_spaced (take n xs)"
proof (induction xs arbitrary: n)
  case Nil
  then show ?case by simp
next
  case (Cons a xs)
  show ?case
  proof (cases n)
    case 0
    then show ?thesis by simp
  next
    case (Suc m)
    have "single_spaced (take m xs)"
      using Cons.IH Cons.prems by (blast dest: single_spaced_tl)
    moreover have "take m xs = [] \<or> \<not> (is_space a \<and> is_space (hd (take m xs)))"
    proof (cases "take m xs = []")
      case True
      then show ?thesis by simp
    next
      case False
      then have "xs \<noteq> []" "m \<noteq> 0" by auto
      then have "hd (take m xs) = hd xs"
        by simp
      with Cons.prems \<open>xs \<noteq> []\<close> show ?thesis
        by (simp add: single_spaced_Cons)
    qed
    ultimately show ?thesis
      using Suc by (simp add: single_spaced_Cons)
  qed
qed

lemma strip_take_drop: "\<exists>k j. strip s = take k (drop j s)"
proof -
  let ?t = "dropWhile is_space s"
  have a: "?t = drop (length (takeWhile is_space s)) s"
    by (rule dropWhile_eq_drop)
  have "dropWhile is_space (rev ?t) = drop (length (takeWhile is_space (rev ?t))) (rev ?t)"
    by (rule dropWhile_eq_drop)
  then have "strip s = take (length ?t - length (takeWhile is_space (rev ?t))) ?t"
    by (simp add: strip_def rev_drop)
  with a show ?thesis by metis
qed

lemma strip_hd: "strip s \<noteq> [] \<Longrightarrow> \<not> is_space (hd (strip s))"
proof -
  assume ne: "strip s \<noteq> []"
  let ?t = "dropWhile is_space s"
  have "dropWhile is_space (rev ?t) = drop (length (takeWhile is_space (rev ?t))) (rev ?t)"
    by (rule dropWhile_eq_drop)
  then have st: "strip s = take (length ?t - length (takeWhile is_space (rev ?t))) ?t"
    by (simp add: strip_def rev_drop)
  with ne have "?t \<noteq> []" by auto
  then have "\<not> is_space (hd ?t)"
    by (rule hd_dropWhile)
  moreover have "hd (strip s) = hd ?t"
    using ne st by (metis hd_take take_eq_Nil2 neq0_conv take_eq_Nil)
  ultimately show ?thesis by simp
qed

lemma strip_last: "strip s \<noteq> [] \<Longrightarrow> \<not> is_space (last (strip s))"
proof -
  assume ne: "strip s \<noteq> []"
  let ?u = "dropWhile is_space (rev (dropWhile is_space s))"
  from ne have "?u \<noteq> []"
    by (simp add: strip_def)
  then have "\<not> is_space (hd ?u)"
    by (rule hd_dropWhile)
  moreover have "last (strip s) = hd ?u"
    using \<open>?u \<noteq> []\<close> by (simp add: strip_def last_rev)
  ultimately show ?thesis by simp
qed

text \<open>
  What holds of every filename that \<open>sanitize_filename\<close> derives from a string: it is
  not empty and has at most 120 characters, none of them forbidden; its only whitespace
  is the space, never two in a row, and none at the front; it is \<open>untitled\<close> when
  nothing is left of the title; and it does not end in whitespace unless it was cut.
\<close>

lemma sanitize_filename_properties:
  assumes "sanitize_filename (PStr t) = Inr name"
  shows "name \<noteq> [] \<and> length name \<le> 120 \<and> set name \<inter> set forbidden = {} \<and>
         (\<forall>c \<in> set name. is_space c \<longrightarrow> c = 32) \<and> single_spaced name \<and>
         \<not> is_space (hd name) \<and>
         (strip (collapse_ws (remove_forbidden t)) = [] \<longrightarrow> name = str_of ''untitled'') \<and>
         (length (strip (collapse_ws (remove_forbidden t))) \<le> 120 \<longrightarrow> \<not> is_space (last name))"
proof (cases "strip (collapse_ws (remove_forbidden t)) = []")
  case True
  with assms have "name = str_of ''untitled''"
    by (simp add: Let_def)
  then show ?thesis
    using True by (simp add: str_of_def forbidden_def is_space_def)
next
  case False
  let ?c = "collapse_ws (remove_forbidden t)"
  from False assms have name: "name = take 120 (strip ?c)"
    by (auto simp add: Let_def)
  obtain k j where kj: "strip ?c = take k (drop j ?c)"
    using strip_take_drop by blast
  have sub: "set name \<subseteq> set ?c"
    unfolding name kj by (meson set_take_subset set_drop_subset subset_trans)
  have "set ?c \<subseteq> set (remove_forbidden t) \<union> {32}"
    by (rule collapse_ws_set)
  then have forb: "set name \<inter> set forbidden = {}"
    using sub by (auto simp add: remove_forbidden_def forbidden_def)
  have sp: "\<forall>c \<in> set name. is_space c \<longrightarrow> c = 32"
    using sub collapse_ws_spaces by blast
  have ss: "single_spaced name"
    unfolding name kj
    by (intro single_spaced_take single_spaced_drop collapse_ws_single_spaced)
  have ne: "name \<noteq> []"
    using False name by simp
  have hd: "\<not> is_space (hd name)"
    using strip_hd [OF False] False name by (simp add: hd_take)
  have last: "length (strip ?c) \<le> 120 \<longrightarrow> \<not> is_space (last name)"
    using strip_last [OF False] name by simp
  show ?thesis
    using ne forb sp ss hd last False name by simp
qed

text \<open>
  C2.  The derived filename is not trimmed for every title.  The title \<open>long_title\<close>
  is free of forbidden characters and of whitespace runs; \<open>sanitize_filename\<close> strips
  it first and cuts it to 120 characters afterwards, and the cut falls behind the space:
  the name it returns ends in a space, so stripping it again would change it.
\<close>

theorem sanitize_filename_long_title:
  "sanitize_filename (PStr long_title) = Inr (replicate 119 97 @ [32]) \<and>
   is_space (last (replicate 119 97 @ [32])) \<and>
   strip (replicate 119 97 @ [32]) \<noteq> replicate 119 97 @ [32]"
proof -
  have a: "remove_forbidden long_title = long_title"
    by (simp add: remove_forbidden_def forbidden_def long_title_def)
  have b: "collapse_ws long_title = long_title"
    unfolding long_title_def
    by (subst collapse_ws_no_space) (simp_all add: is_space_def)
  have c: "strip long_title = long_title"
    by (simp add: strip_def is_space_def dropWhile_append long_title_def)
  have d: "take 120 long_title = replicate 119 97 @ [32]"
    by (simp add: long_title_def)
  have e: "long_title \<noteq> []"
    by (simp add: long_title_def)
  have f: "strip (replicate 119 97 @ [32]) = replicate 119 97"
    by (simp add: strip_def is_space_def)
  have g: "length (replicate 119 (97::nat)) \<noteq> length (replicate 119 (97::nat) @ [32])"
    by simp
  from g have h: "replicate 119 (97::nat) \<noteq> replicate 119 97 @ [32]"
    by (metis g)
  show ?thesis
    using e h by (simp add: a b c d f is_space_def)
qed

subsection \<open>One iteration of the loop\<close>

lemma process_bookmark_cases [consumes 1, case_names no_id bad_title tried]:
  assumes "process_bookmark env config tmpdir b s = (r, s')"
  obtains
    "bookmark_id b = None" "r = Some KeyError" "s' = s"
  | idv e where "bookmark_id b = Some idv"
      "sanitize_filename (dict_get (title b) (PStr (str_of ''Untitled''))) = Inl e"
      "r = Some e"
      "s' = logw INFO ''Processing: %s'' [dict_get (title b) (PStr (str_of ''Untitled''))]
              (s\<lparr>current := Some (py_str idv)\<rparr>)"
  | idv name where "bookmark_id b = Some idv"
      "sanitize_filename (dict_get (title b) (PStr (str_of ''Untitled''))) = Inr name"
      "r = None"
      "s' = try_deliver env config (py_str idv)
              (dict_get (title b) (PStr (str_of ''Untitled''))) (dict_get (url b) (PStr []))
              (path_join tmpdir (name @ str_of ''.pdf''))
              (logw INFO ''Processing: %s'' [dict_get (title b) (PStr (str_of ''Untitled''))]
                 (s\<lparr>current := Some (py_str idv)\<rparr>))"
  using assms
  unfolding process_bookmark_def Let_def
  by (auto split: option.splits sum.splits)

lemma sanitize_filename_Inl: "sanitize_filename t = Inl e \<Longrightarrow> \<not> is_str t"
  by (cases t) (simp_all add: Let_def)

lemma sanitize_filename_Inr: "sanitize_filename t = Inr name \<Longrightarrow> is_str t"
  by (cases t) (simp_all add: Let_def)

text \<open>
  An iteration either leaves the loop with an exception, before any call, or makes its
  calls under the id of its bookmark, starting with the fetch, and ends in one of the three
  ways of the try statement.
\<close>

lemma process_bookmark_shape:
  assumes "process_bookmark env config tmpdir b s = (r, s')"
  shows "\<exists>new. trace s' = trace s @ new \<and> dirs s' = dirs s \<and>
      (\<forall>x \<in> set new. bookmark_id b \<noteq> None \<and> fst x = Some (item_id b)) \<and>
      ((r \<noteq> None \<and> \<not> well_formed b \<and> new = [] \<and>
        processed s' = processed s \<and> files s' = files s)
       \<or> (r = None \<and> well_formed b \<and>
           fetches new = [(Some (item_id b), dict_get (url b) (PStr []))] \<and>
           ((\<exists>e. quiet (butlast new) \<and> is_item_call (snd (last new)) \<and>
              raised_of (snd (last new)) = Some e \<and> \<not> put_ok (snd (last new)) \<and>
              processed s' = processed s \<and> files s' = files s \<and>
              last (logs s') = Log ERROR ''Error processing bookmark %s (%s)''
                   [PStr (item_id b), dict_get (title b) (PStr (str_of ''Untitled''))] (Some e))
            \<or> (quiet new \<and> processed s' = processed s \<and> files s' = files s)
            \<or> (\<exists>pre put n. new = pre @ [(Some (item_id b), put),
                  (Some (item_id b), WriteText (processed_log config)
                     (json_dumps env (processed s')))] \<and>
                quiet pre \<and> put_ok put \<and>
                processed s' = dict_set (item_id b) (now_iso env n) (processed s) \<and>
                files s' = (files s)(processed_log config \<mapsto> json_dumps env (processed s'))))))"
  using assms
proof (cases rule: process_bookmark_cases)
  case no_id
  then show ?thesis by (simp add: well_formed_def)
next
  case (bad_title idv e)
  then show ?thesis
    by (auto simp add: well_formed_def dest: sanitize_filename_Inl)
next
  case (tried idv name)
  let ?t = "dict_get (title b) (PStr (str_of ''Untitled''))"
  let ?s1 = "logw INFO ''Processing: %s'' [?t] (s\<lparr>current := Some (py_str idv)\<rparr>)"
  have s1: "trace ?s1 = trace s" "current ?s1 = Some (py_str idv)" "dirs ?s1 = dirs s"
     "processed ?s1 = processed s" "files ?s1 = files s"
    by simp_all
  have id: "item_id b = py_str idv" "bookmark_id b \<noteq> None"
    using tried(1) by (simp_all add: item_id_def)
  have wf: "well_formed b"
    using tried(1,2) by (simp add: well_formed_def sanitize_filename_Inr)
  have d: "dirs s' = dirs s"
    using try_deliver_frame [of env config "py_str idv" _ _ _ ?s1] tried(4) by simp
  from try_deliver_shape [OF tried(4)] obtain new where
    new: "trace s' = trace s @ new" "new \<noteq> []"
      "fetches new = [(Some (py_str idv), dict_get (url b) (PStr []))]"
      "\<forall>x \<in> set new. fst x = Some (py_str idv)"
    and ways: "(\<exists>e. quiet (butlast new) \<and> is_item_call (snd (last new)) \<and>
            raised_of (snd (last new)) = Some e \<and> \<not> put_ok (snd (last new)) \<and>
            processed s' = processed s \<and> files s' = files s \<and>
            logs s' = logs ?s1 @ [Log ERROR ''Error processing bookmark %s (%s)''
                [PStr (py_str idv), ?t] (Some e)])
       \<or> (quiet new \<and> processed s' = processed s \<and> files s' = files s)
       \<or> (\<exists>pre put n. new = pre @ [(Some (py_str idv), put),
                (Some (py_str idv), WriteText (processed_log config)
                   (json_dumps env (processed s')))] \<and>
            quiet pre \<and> put_ok put \<and>
            processed s' = dict_set (py_str idv) (now_iso env n) (processed s) \<and>
            files s' = (files s)(processed_log config \<mapsto> json_dumps env (processed s')))"
    unfolding s1 by blast
  from ways have ways': "(\<exists>e. quiet (butlast new) \<and> is_item_call (snd (last new)) \<and>
              raised_of (snd (last new)) = Some e \<and> \<not> put_ok (snd (last new)) \<and>
              processed s' = processed s \<and> files s' = files s \<and>
              last (logs s') = Log ERROR ''Error processing bookmark %s (%s)''
                   [PStr (item_id b), ?t] (Some e))
            \<or> (quiet new \<and> processed s' = processed s \<and> files s' = files s)
            \<or> (\<exists>pre put n. new = pre @ [(Some (item_id b), put),
                  (Some (item_id b), WriteText (processed_log config)
                     (json_dumps env (processed s')))] \<and>
                quiet pre \<and> put_ok put \<and>
                processed s' = dict_set (item_id b) (now_iso env n) (processed s) \<and>
                files s' = (files s)(processed_log config \<mapsto> json_dumps env (processed s')))"
    unfolding id(1) by (elim disjE exE conjE) (simp, simp, blast)
  show ?thesis
    using new(1,3,4) d id wf tried(3) ways'
    by (intro exI [of _ new]) simp
qed



lemma quiet_item_calls: "quiet cs \<Longrightarrow> x \<in> set cs \<Longrightarrow> is_item_call (snd x)"
  by (simp add: quiet_def)

lemma quiet_not_raised: "quiet cs \<Longrightarrow> x \<in> set cs \<Longrightarrow> raised_of (snd x) = None"
  by (simp add: quiet_def)

lemma put_ok_item_call: "put_ok c \<Longrightarrow> is_item_call c \<and> raised_of c = None"
  by (cases c rule: put_ok.cases) simp_all

lemma dict_set_length: "length d \<le> length (dict_set k v d)"
  by (induction d) auto

lemma dict_set_keys_list:
  "map fst (dict_set k v d) = (if k \<in> set (map fst d) then map fst d else map fst d @ [k])"
  by (induction d) (auto simp add: image_iff, fastforce)

lemma dict_set_keys: "fst ` set (dict_set k v d) = insert k (fst ` set d)"
proof -
  have "set (map fst (dict_set k v d)) = insert k (set (map fst d))"
    by (auto simp add: dict_set_keys_list)
  then show ?thesis by simp
qed





subsection \<open>The loop\<close>

lemma process_bookmark_step:
  assumes "process_bookmark env config tmpdir b s = (r, s')"
  shows "\<exists>new. trace s' = trace s @ new \<and> dirs s' = dirs s \<and>
     (\<forall>x \<in> set new. bookmark_id b \<noteq> None \<and> fst x = Some (item_id b) \<and>
        loop_call config (snd x)) \<and>
     length (processed s) \<le> length (processed s') \<and>
     set (map fst (processed s)) \<subseteq> set (map fst (processed s')) \<and>
     (well_formed b \<longrightarrow>
        r = None \<and> fetches new = [(Some (item_id b), dict_get (url b) (PStr []))])"
proof -
  from process_bookmark_shape [OF assms] obtain new where
    new: "trace s' = trace s @ new" "dirs s' = dirs s"
      "\<forall>x \<in> set new. bookmark_id b \<noteq> None \<and> fst x = Some (item_id b)"
    and ways: "(r \<noteq> None \<and> \<not> well_formed b \<and> new = [] \<and>
        processed s' = processed s \<and> files s' = files s)
       \<or> (r = None \<and> well_formed b \<and>
           fetches new = [(Some (item_id b), dict_get (url b) (PStr []))] \<and>
           ((\<exists>e. quiet (butlast new) \<and> is_item_call (snd (last new)) \<and>
              raised_of (snd (last new)) = Some e \<and> \<not> put_ok (snd (last new)) \<and>
              processed s' = processed s \<and> files s' = files s \<and>
              last (logs s') = Log ERROR ''Error processing bookmark %s (%s)''
                   [PStr (item_id b), dict_get (title b) (PStr (str_of ''Untitled''))] (Some e))
            \<or> (quiet new \<and> processed s' = processed s \<and> files s' = files s)
            \<or> (\<exists>pre put n. new = pre @ [(Some (item_id b), put),
                  (Some (item_id b), WriteText (processed_log config)
                     (json_dumps env (processed s')))] \<and>
                quiet pre \<and> put_ok put \<and>
                processed s' = dict_set (item_id b) (now_iso env n) (processed s) \<and>
                files s' = (files s)(processed_log config \<mapsto> json_dumps env (processed s')))))"
    by blast
  from ways have fet: "well_formed b \<longrightarrow>
        r = None \<and> fetches new = [(Some (item_id b), dict_get (url b) (PStr []))]"
    by blast
  from ways have grow: "length (processed s) \<le> length (processed s') \<and>
     set (map fst (processed s)) \<subseteq> set (map fst (processed s'))"
    by (elim disjE exE conjE) (auto simp add: dict_set_length dict_set_keys)
  from ways consider
      (left) "new = []"
    | (raised) "new \<noteq> []" "quiet (butlast new)" "is_item_call (snd (last new))"
    | (failed) "quiet new"
    | (delivered) pre put body where
        "new = pre @ [(Some (item_id b), put), (Some (item_id b), WriteText (processed_log config) body)]"
        "quiet pre" "put_ok put"
    by fastforce
  then have kinds: "\<forall>x \<in> set new. loop_call config (snd x)"
  proof cases
    case left
    then show ?thesis by simp
  next
    case raised
    have "\<forall>x \<in> set (butlast new @ [last new]). is_item_call (snd x)"
      using raised(2,3) by (auto dest: quiet_item_calls)
    then show ?thesis
      using raised(1) by (simp add: loop_call_def)
  next
    case failed
    then show ?thesis by (auto simp add: loop_call_def dest: quiet_item_calls)
  next
    case delivered
    then show ?thesis
      by (auto simp add: loop_call_def dest: quiet_item_calls put_ok_item_call)
  qed
  show ?thesis
    using new fet grow kinds by (intro exI [of _ new]) simp
qed

lemma process_all_step:
  assumes "process_all env config tmpdir bs s = (r, s')"
  shows "\<exists>new. trace s' = trace s @ new \<and> dirs s' = dirs s \<and>
     (\<forall>x \<in> set new. \<exists>b \<in> set bs. bookmark_id b \<noteq> None \<and> fst x = Some (item_id b)) \<and>
     (\<forall>x \<in> set new. loop_call config (snd x)) \<and>
     length (processed s) \<le> length (processed s') \<and>
     set (map fst (processed s)) \<subseteq> set (map fst (processed s')) \<and>
     ((\<forall>b \<in> set bs. well_formed b) \<longrightarrow>
        r = None \<and>
        fetches new = map (\<lambda>b. (Some (item_id b), dict_get (url b) (PStr []))) bs)"
  using assms
proof (induction bs arbitrary: s)
  case Nil
  then show ?case by simp
next
  case (Cons b bs)
  obtain r1 s1 where one: "process_bookmark env config tmpdir b s = (r1, s1)"
    by (cases "process_bookmark env config tmpdir b s")
  from process_bookmark_step [OF one] obtain n1 where
    n1: "trace s1 = trace s @ n1" "dirs s1 = dirs s"
      "\<forall>x \<in> set n1. bookmark_id b \<noteq> None \<and> fst x = Some (item_id b) \<and> loop_call config (snd x)"
      "length (processed s) \<le> length (processed s1)"
      "set (map fst (processed s)) \<subseteq> set (map fst (processed s1))"
      "well_formed b \<longrightarrow>
         r1 = None \<and> fetches n1 = [(Some (item_id b), dict_get (url b) (PStr []))]"
    by blast
  show ?case
  proof (cases r1)
    case (Some e)
    with one Cons.prems have "r = Some e" "s' = s1"
      by simp_all
    with n1 Some show ?thesis
      by (intro exI [of _ n1]) auto
  next
    case None
    with one Cons.prems have rest: "process_all env config tmpdir bs s1 = (r, s')"
      by simp
    from Cons.IH [OF rest] obtain n2 where
      n2: "trace s' = trace s1 @ n2" "dirs s' = dirs s1"
        "\<forall>x \<in> set n2. \<exists>b \<in> set bs. bookmark_id b \<noteq> None \<and> fst x = Some (item_id b)"
        "\<forall>x \<in> set n2. loop_call config (snd x)"
        "length (processed s1) \<le> length (processed s')"
        "set (map fst (processed s1)) \<subseteq> set (map fst (processed s'))"
        "(\<forall>b \<in> set bs. well_formed b) \<longrightarrow>
           r = None \<and>
           fetches n2 = map (\<lambda>b. (Some (item_id b), dict_get (url b) (PStr []))) bs"
      by blast
    have t: "trace s' = trace s @ (n1 @ n2)"
      using n1(1) n2(1) by simp
    have tags: "\<forall>x \<in> set (n1 @ n2). \<exists>b' \<in> set (b # bs).
                  bookmark_id b' \<noteq> None \<and> fst x = Some (item_id b')"
      using n1(3) n2(3) by auto
    have kinds: "\<forall>x \<in> set (n1 @ n2). loop_call config (snd x)"
      using n1(3) n2(4) by auto
    have grow: "length (processed s) \<le> length (processed s')"
      "set (map fst (processed s)) \<subseteq> set (map fst (processed s'))"
      using n1(4,5) n2(5,6) by auto
    have fet: "(\<forall>b' \<in> set (b # bs). well_formed b') \<longrightarrow>
        r = None \<and>
        fetches (n1 @ n2) = map (\<lambda>b. (Some (item_id b), dict_get (url b) (PStr []))) (b # bs)"
      using n1(6) n2(7) by simp
    show ?thesis
      using t tags kinds grow fet n1(2) n2(2)
      by (intro exI [of _ "n1 @ n2"]) simp
  qed
qed


text \<open>
  C5.  When a call of one of the four stages raises during an item's iteration, the
  iteration ends without an exception, its last log record is the error record with that
  exception, the bookmark id and the title, and the ledger and the files are as before
  the iteration.  The loop goes on with the remaining items: none of them, being records
  with an id and a string title, lets an exception out, and each is fetched in turn.
\<close>

theorem stage_exception_is_caught:
  assumes "process_bookmark env config tmpdir b s = (r, s')"
    and "x \<in> set (calls_since s s')" and "raised_of (snd x) = Some e"
    and "\<forall>b' \<in> set bs. well_formed b'"
    and "process_all env config tmpdir bs s' = (r', s'')"
  shows "r = None \<and>
     last (logs s') = Log ERROR ''Error processing bookmark %s (%s)''
        [PStr (item_id b), dict_get (title b) (PStr (str_of ''Untitled''))] (Some e) \<and>
     processed s' = processed s \<and> files s' = files s \<and>
     process_all env config tmpdir (b # bs) s = (r', s'') \<and> r' = None \<and>
     fetches (calls_since s' s'') =
       map (\<lambda>b. (Some (item_id b), dict_get (url b) (PStr []))) bs"
proof -
  from process_bookmark_shape [OF assms(1)] obtain new where
    new: "trace s' = trace s @ new"
    and ways: "(r \<noteq> None \<and> \<not> well_formed b \<and> new = [] \<and>
        processed s' = processed s \<and> files s' = files s)
       \<or> (r = None \<and> well_formed b \<and>
           fetches new = [(Some (item_id b), dict_get (url b) (PStr []))] \<and>
           ((\<exists>e. quiet (butlast new) \<and> is_item_call (snd (last new)) \<and>
              raised_of (snd (last new)) = Some e \<and> \<not> put_ok (snd (last new)) \<and>
              processed s' = processed s \<and> files s' = files s \<and>
              last (logs s') = Log ERROR ''Error processing bookmark %s (%s)''
                   [PStr (item_id b), dict_get (title b) (PStr (str_of ''Untitled''))] (Some e))
            \<or> (quiet new \<and> processed s' = processed s \<and> files s' = files s)
            \<or> (\<exists>pre put n. new = pre @ [(Some (item_id b), put),
                  (Some (item_id b), WriteText (processed_log config)
                     (json_dumps env (processed s')))] \<and>
                quiet pre \<and> put_ok put \<and>
                processed s' = dict_set (item_id b) (now_iso env n) (processed s) \<and>
                files s' = (files s)(processed_log config \<mapsto> json_dumps env (processed s')))))"
    by blast
  have x: "x \<in> set new"
    using assms(2) new by simp
  from ways consider
      (left) "new = []"
    | (raised) e' where "r = None" "new \<noteq> []" "quiet (butlast new)"
        "raised_of (snd (last new)) = Some e'"
        "processed s' = processed s" "files s' = files s"
        "last (logs s') = Log ERROR ''Error processing bookmark %s (%s)''
           [PStr (item_id b), dict_get (title b) (PStr (str_of ''Untitled''))] (Some e')"
    | (failed) "quiet new"
    | (delivered) pre put body where
        "new = pre @ [(Some (item_id b), put), (Some (item_id b), WriteText (processed_log config) body)]"
        "quiet pre" "put_ok put"
    by fastforce
  then have here: "r = None \<and>
     last (logs s') = Log ERROR ''Error processing bookmark %s (%s)''
        [PStr (item_id b), dict_get (title b) (PStr (str_of ''Untitled''))] (Some e) \<and>
     processed s' = processed s \<and> files s' = files s"
  proof cases
    case left
    with x show ?thesis by simp
  next
    case (raised e')
    have "x \<in> set (butlast new @ [last new])"
      using x raised(2) by simp
    then have "x = last new"
      using raised(3) assms(3) by (auto dest: quiet_not_raised)
    then have "e' = e"
      using raised(4) assms(3) by simp
    then show ?thesis
      using raised by simp
  next
    case failed
    with x assms(3) show ?thesis by (auto dest: quiet_not_raised)
  next
    case delivered
    with x assms(3) show ?thesis
      by (auto dest: quiet_not_raised put_ok_item_call)
  qed
  then have loop: "process_all env config tmpdir (b # bs) s = (r', s'')"
    using assms(1,5) by simp
  from process_all_step [OF assms(5)] assms(4) obtain rest where
    "trace s'' = trace s' @ rest" "r' = None"
    "fetches rest = map (\<lambda>b. (Some (item_id b), dict_get (url b) (PStr []))) bs"
    by blast
  then show ?thesis
    using here loop by simp
qed


theorem stage_exception_is_caught_witness:
  "(Some (str_of ''3''), FetchUrl (PStr (str_of ''c'')) (Inl (LibError 7)))
     \<in> set (calls_since state0
         (snd (process_bookmark env0 config0 (str_of ''/t'') (bm 3 (PStr (str_of ''C'')) ''c'') state0))) \<and>
   well_formed (bm 4 (PStr (str_of ''D'')) ''d'') \<and>
   last (logs (snd (process_bookmark env0 config0 (str_of ''/t'')
                      (bm 3 (PStr (str_of ''C'')) ''c'') state0))) =
     Log ERROR ''Error processing bookmark %s (%s)'' [PStr (str_of ''3''), PStr (str_of ''C'')]
       (Some (LibError 7)) \<and>
   processed (snd (process_bookmark env0 config0 (str_of ''/t'')
                      (bm 3 (PStr (str_of ''C'')) ''c'') state0)) = processed state0 \<and>
   fst (process_all env0 config0 (str_of ''/t'')
          [bm 3 (PStr (str_of ''C'')) ''c'', bm 4 (PStr (str_of ''D'')) ''d''] state0) = None \<and>
   fetches (calls_since
      (snd (process_bookmark env0 config0 (str_of ''/t'') (bm 3 (PStr (str_of ''C'')) ''c'') state0))
      (snd (process_all env0 config0 (str_of ''/t'')
          [bm 3 (PStr (str_of ''C'')) ''c'', bm 4 (PStr (str_of ''D'')) ''d''] state0))) =
     [(Some (str_of ''4''), PStr (str_of ''d''))]"
proof -
  let ?b3 = "bm 3 (PStr (str_of ''C'')) ''c''"
  let ?b4 = "bm 4 (PStr (str_of ''D'')) ''d''"
  let ?one = "process_bookmark env0 config0 (str_of ''/t'') ?b3 state0"
  let ?rest = "process_all env0 config0 (str_of ''/t'') [?b4] (snd ?one)"
  let ?x = "(Some (str_of ''3''), FetchUrl (PStr (str_of ''c'')) (Inl (LibError 7)))"
  have x: "?x \<in> set (calls_since state0 (snd ?one))"
    by (simp add: ex_defs str_defs run_defs)
  have wf: "\<forall>b' \<in> set [?b4]. well_formed b'"
    by (simp add: well_formed_def ex_defs str_defs)
  have id3: "item_id ?b3 = str_of ''3''" "item_id ?b4 = str_of ''4''"
    "dict_get (title ?b3) (PStr (str_of ''Untitled'')) = PStr (str_of ''C'')"
    "dict_get (url ?b4) (PStr []) = PStr (str_of ''d'')"
    by (simp_all add: ex_defs str_defs)
  have h1: "?one = (fst ?one, snd ?one)" and h5: "?rest = (fst ?rest, snd ?rest)"
    by simp_all
  have h3: "raised_of (snd ?x) = Some (LibError 7)"
    by simp
  note caught = stage_exception_is_caught [OF h1 x h3 wf h5]
  from caught have all: "process_all env0 config0 (str_of ''/t'') [?b3, ?b4] state0 = ?rest"
    by simp
  from caught have
    "last (logs (snd ?one)) = Log ERROR ''Error processing bookmark %s (%s)''
        [PStr (item_id ?b3), dict_get (title ?b3) (PStr (str_of ''Untitled''))] (Some (LibError 7))"
    "processed (snd ?one) = processed state0"
    "fst ?rest = None"
    "fetches (calls_since (snd ?one) (snd ?rest)) =
       map (\<lambda>b. (Some (item_id b), dict_get (url b) (PStr []))) [?b4]"
    by blast+
  then show ?thesis
    using x wf unfolding all by (simp add: id3)
qed


subsection \<open>Log records\<close>

lemma no_summary_refl [simp]: "no_summary s s"
  by (simp add: no_summary_def)

lemma no_summary_trans: "no_summary s s1 \<Longrightarrow> no_summary s1 s2 \<Longrightarrow> no_summary s s2"
  by (auto simp add: no_summary_def)

lemma no_summary_logw:
  "fmt \<noteq> ''Done. Processed %d bookmark(s).'' \<Longrightarrow> no_summary s s1 \<Longrightarrow>
   no_summary s (logw lvl fmt args s1)"
  by (auto simp add: no_summary_def is_summary_def)

lemma no_summary_log_exception:
  "fmt \<noteq> ''Done. Processed %d bookmark(s).'' \<Longrightarrow> no_summary s s1 \<Longrightarrow>
   no_summary s (log_exception fmt args e s1)"
  by (auto simp add: no_summary_def is_summary_def)

lemma article_to_pdf_no_summary:
  "article_to_pdf env t u p s = (r, s') \<Longrightarrow> no_summary s s'"
  by (auto simp add: article_to_pdf_def Let_def no_summary_def is_summary_def
           split: sum.splits if_splits option.splits)

lemma upload_no_summary:
  "upload_to_remarkable env p f s = (r, s') \<Longrightarrow> no_summary s s'"
  by (auto simp add: upload_to_remarkable_def Let_def no_summary_def is_summary_def
           split: sum.splits if_splits option.splits prod.splits)

lemma try_deliver_no_summary: "no_summary s (try_deliver env config bid t u p s)"
proof (cases rule: try_deliver_cases [of env t u p s config bid])
  case (pdf_raised e s2)
  then show ?thesis
    by (simp add: no_summary_log_exception article_to_pdf_no_summary)
next
  case (pdf_false s2)
  then show ?thesis
    by (simp add: article_to_pdf_no_summary)
next
  case (up_raised s2 e s3)
  then show ?thesis
    by (simp add: no_summary_log_exception
          no_summary_trans [OF article_to_pdf_no_summary upload_no_summary])
next
  case (up_false s2 s3)
  then show ?thesis
    by (simp add: no_summary_logw
          no_summary_trans [OF article_to_pdf_no_summary upload_no_summary])
next
  case (delivered s2 s3)
  have "no_summary s s3"
    using delivered(1,2) by (rule no_summary_trans [OF article_to_pdf_no_summary upload_no_summary])
  then have "no_summary s (save_processed env (processed_log config)
              (dict_set bid (now_iso env (clock s3)) (processed s3))
              (s3\<lparr>processed := dict_set bid (now_iso env (clock s3)) (processed s3)\<rparr>))"
    by (simp add: no_summary_def)
  then show ?thesis
    by (simp add: delivered(3) no_summary_logw)
qed

lemma process_bookmark_no_summary:
  assumes "process_bookmark env config tmpdir b s = (r, s')"
  shows "no_summary s s'"
  using assms
proof (cases rule: process_bookmark_cases)
  case no_id
  then show ?thesis by simp
next
  case (bad_title idv e)
  then show ?thesis by (simp add: no_summary_def is_summary_def)
next
  case (tried idv name)
  have "no_summary s (logw INFO ''Processing: %s'' [dict_get (title b) (PStr (str_of ''Untitled''))]
                 (s\<lparr>current := Some (py_str idv)\<rparr>))"
    by (simp add: no_summary_def is_summary_def)
  then show ?thesis
    unfolding tried(4) by (rule no_summary_trans) (rule try_deliver_no_summary)
qed

lemma process_all_no_summary:
  "process_all env config tmpdir bs s = (r, s') \<Longrightarrow> no_summary s s'"
proof (induction bs arbitrary: s)
  case Nil
  then show ?case by simp
next
  case (Cons b bs)
  obtain r1 s1 where one: "process_bookmark env config tmpdir b s = (r1, s1)"
    by (cases "process_bookmark env config tmpdir b s")
  show ?case
  proof (cases r1)
    case (Some e)
    with one Cons.prems show ?thesis
      by (auto dest: process_bookmark_no_summary)
  next
    case None
    with one Cons.prems have "process_all env config tmpdir bs s1 = (r, s')"
      by simp
    then have "no_summary s1 s'"
      by (rule Cons.IH)
    with process_bookmark_no_summary [OF one] show ?thesis
      by (rule no_summary_trans)
  qed
qed


subsection \<open>The run\<close>

lemma rmtree_simps [simp]:
  "processed (rmtree d s) = processed s"
  "logs (rmtree d s) = logs s"
  "trace (rmtree d s) = trace s @ [(None, Rmtree d)]"
  "files (rmtree d s) = files s"
  "dirs (rmtree d s) = removeAll d (dirs s)"
  by (simp_all add: rmtree_def)

lemma load_processed_files:
  "files s' = files s \<Longrightarrow> load_processed env path s' = load_processed env path s"
  by (simp add: load_processed_def)

lemma fetch_bookmarks_frame:
  assumes "fetch_bookmarks env session limit s = (rb, s2)"
  shows "dirs s2 = dirs s \<and> files s2 = files s \<and> processed s2 = processed s \<and>
         (\<exists>lr. trace s2 = trace s @ [(None, ListPost limit lr)]) \<and> no_summary s s2"
  using assms
  by (auto simp add: fetch_bookmarks_def Let_def no_summary_def is_summary_def
           split: sum.splits if_splits)

lemma do_mkdtemp_frame:
  assumes "do_mkdtemp env s = (rd, s5)"
  shows "files s5 = files s \<and> processed s5 = processed s \<and> logs s5 = logs s \<and>
         trace s5 = trace s @ [(None, Mkdtemp rd)] \<and>
         dirs s5 = (case rd of Inl e \<Rightarrow> dirs s | Inr d \<Rightarrow> d # dirs s)"
  using assms
  by (auto simp add: do_mkdtemp_def Let_def split: sum.splits)

text \<open>
  A run after startup either ends before a temporary directory exists, or loads the
  ledger, filters, creates the directory, runs the loop over the new bookmarks and removes
  the directory, with the summary only when the loop ended without an exception.
\<close>

lemma main_sync_cases [consumes 1, case_names early looped]:
  assumes "main_sync env config session s0 = (r, s')"
  obtains
    new where "dirs s' = dirs s0" "no_summary s0 s'" "trace s' = trace s0 @ new"
      "\<forall>x \<in> set new. \<not> is_item_call (snd x) \<and> (\<forall>d. snd x \<noteq> Mkdtemp (Inr d))"
  | lr bookmarks loaded new_bookmarks tmpdir s5 r6 s6 where
      "load_processed env (processed_log config) s0 = Inr loaded"
      "new_bookmarks_of bookmarks loaded = Inr new_bookmarks"
      "trace s5 = trace s0 @ [(None, ListPost (batch_size config) lr), (None, Mkdtemp (Inr tmpdir))]"
      "processed s5 = loaded" "dirs s5 = tmpdir # dirs s0" "no_summary s0 s5"
      "process_all env config tmpdir new_bookmarks s5 = (r6, s6)"
      "r = map_option Uncaught r6"
      "s' = (case r6 of
               Some e \<Rightarrow> rmtree tmpdir s6
             | None \<Rightarrow> logw INFO ''Done. Processed %d bookmark(s).''
                         [PInt (int (length (processed (rmtree tmpdir s6))))] (rmtree tmpdir s6))"
proof -
  let ?s1 = "logw INFO ''Fetching unread bookmarks...'' [] s0"
  obtain rb s2 where fb: "fetch_bookmarks env session (batch_size config) ?s1 = (rb, s2)"
    by (cases "fetch_bookmarks env session (batch_size config) ?s1")
  from fetch_bookmarks_frame [OF fb] obtain lr where
    s2: "dirs s2 = dirs s0" "files s2 = files s0"
      "trace s2 = trace s0 @ [(None, ListPost (batch_size config) lr)]"
      "no_summary ?s1 s2"
    by auto
  have "no_summary s0 ?s1"
    by (simp add: no_summary_def is_summary_def)
  then have ns2: "no_summary s0 s2"
    using s2(4) by (rule no_summary_trans)
  show thesis
  proof (cases rb)
    case (Inl e)
    with assms fb have "s' = s2"
      by (simp add: main_sync_def Let_def)
    with s2(1,3) ns2 show thesis
      by (intro that(1) [of "[(None, ListPost (batch_size config) lr)]"]) simp_all
  next
    case (Inr bookmarks)
    show thesis
    proof (cases "bookmarks = []")
      case True
      with assms fb Inr have "s' = logw INFO ''No bookmarks found.'' [] s2"
        by (simp add: main_sync_def Let_def)
      with s2(1,3) ns2 show thesis
        by (intro that(1) [of "[(None, ListPost (batch_size config) lr)]"])
           (simp_all add: no_summary_logw)
    next
      case False
      show thesis
      proof (cases "load_processed env (processed_log config) s2")
        case (Inl e)
        with assms fb \<open>rb = Inr bookmarks\<close> False have "s' = s2"
          by (simp add: main_sync_def Let_def)
        with s2(1,3) ns2 show thesis
          by (intro that(1) [of "[(None, ListPost (batch_size config) lr)]"]) simp_all
      next
        case loaded: (Inr loaded)
        let ?s3 = "s2\<lparr>processed := loaded\<rparr>"
        have ns3: "no_summary s0 ?s3"
          using ns2 by (simp add: no_summary_def)
        show thesis
        proof (cases "new_bookmarks_of bookmarks loaded")
          case (Inl e)
          with assms fb \<open>rb = Inr bookmarks\<close> False loaded have "s' = ?s3"
            by (simp add: main_sync_def Let_def)
          with s2(1,3) ns3 show thesis
            by (intro that(1) [of "[(None, ListPost (batch_size config) lr)]"]) simp_all
        next
          case nb: (Inr new_bookmarks)
          show thesis
          proof (cases "new_bookmarks = []")
            case True
            with assms fb \<open>rb = Inr bookmarks\<close> \<open>bookmarks \<noteq> []\<close> loaded nb
            have "s' = logw INFO ''No new bookmarks to process.'' [] ?s3"
              by (simp add: main_sync_def Let_def)
            with s2(1,3) ns3 show thesis
              by (intro that(1) [of "[(None, ListPost (batch_size config) lr)]"])
                 (simp_all add: no_summary_logw)
          next
            case some: False
            let ?s4 = "logw INFO ''Processing %d new bookmark(s)...''
                         [PInt (int (length new_bookmarks))] ?s3"
            have ns4: "no_summary s0 ?s4"
              using ns3 by (simp add: no_summary_logw)
            obtain rd s5 where mk: "do_mkdtemp env ?s4 = (rd, s5)"
              by (cases "do_mkdtemp env ?s4")
            from do_mkdtemp_frame [OF mk] have
              s5: "processed s5 = loaded" "logs s5 = logs ?s4"
                "trace s5 = trace s0 @ [(None, ListPost (batch_size config) lr), (None, Mkdtemp rd)]"
                "dirs s5 = (case rd of Inl e \<Rightarrow> dirs s0 | Inr d \<Rightarrow> d # dirs s0)"
              using s2(1,3) by (simp_all split: sum.splits)
            have ns5: "no_summary s0 s5"
              using ns4 s5(2) by (simp add: no_summary_def)
            show thesis
            proof (cases rd)
              case (Inl e)
              with assms fb \<open>rb = Inr bookmarks\<close> \<open>bookmarks \<noteq> []\<close> loaded nb some mk
              have "s' = s5"
                by (simp add: main_sync_def Let_def)
              with s5(3,4) ns5 Inl show thesis
                by (intro that(1) [of "[(None, ListPost (batch_size config) lr),
                                           (None, Mkdtemp (Inl e))]"]) simp_all
            next
              case tmp: (Inr tmpdir)
              obtain r6 s6 where loop: "process_all env config tmpdir new_bookmarks s5 = (r6, s6)"
                by (cases "process_all env config tmpdir new_bookmarks s5")
              have ld: "load_processed env (processed_log config) s0 = Inr loaded"
                using loaded s2(2) by (simp add: load_processed_def)
              from assms fb \<open>rb = Inr bookmarks\<close> \<open>bookmarks \<noteq> []\<close> loaded nb some mk tmp loop
              have res: "r = map_option Uncaught r6"
                "s' = (case r6 of
                         Some e \<Rightarrow> rmtree tmpdir s6
                       | None \<Rightarrow> logw INFO ''Done. Processed %d bookmark(s).''
                           [PInt (int (length (processed (rmtree tmpdir s6))))] (rmtree tmpdir s6))"
                by (auto simp add: main_sync_def Let_def split: option.splits)
              show thesis
                using ld nb s5(3) s5(1) s5(4) ns5 loop res unfolding tmp
                by (intro that(2) [of loaded bookmarks new_bookmarks s5 lr tmpdir r6 s6]) simp_all
            qed
          qed
        qed
      qed
    qed
  qed
qed


lemma load_config_frame:
  assumes "load_config env s = (rc, s1)"
  shows "dirs s1 = dirs s \<and> trace s1 = trace s \<and> files s1 = files s \<and> no_summary s s1 \<and>
         (\<forall>config. rc = Inr config \<longrightarrow> s1 = s)"
  using assms
  by (auto simp add: load_config_def Let_def no_summary_def is_summary_def
           split: if_splits sum.splits list.splits option.splits)

lemma check_rmapi_frame:
  assumes "check_rmapi env s = (rc, s1)"
  shows "dirs s1 = dirs s \<and> trace s1 = trace s \<and> files s1 = files s \<and> no_summary s s1"
  using assms
  by (auto simp add: check_rmapi_def no_summary_def is_summary_def split: if_splits)

lemma instapaper_auth_frame:
  assumes "instapaper_auth env config s = (ra, s1)"
  shows "dirs s1 = dirs s \<and> files s1 = files s \<and> no_summary s s1 \<and>
         (\<exists>ar. trace s1 = trace s @ [(None, AccessTokenPost ar)])"
  using assms
  by (auto simp add: instapaper_auth_def Let_def no_summary_def is_summary_def
           split: if_splits sum.splits)

text \<open>
  A whole run either stops during startup or reaches \<open>main_sync\<close> with the loaded
  configuration, after the one call of the authentication.
\<close>

lemma main_cases [consumes 1, case_names aborted synced]:
  assumes "main env s = (r, s')"
  obtains
    new where "dirs s' = dirs s" "no_summary s s'" "trace s' = trace s @ new"
      "\<forall>x \<in> set new. \<not> is_item_call (snd x) \<and> (\<forall>d. snd x \<noteq> Mkdtemp (Inr d))"
  | config session s4 ar where
      "load_config env s = (Inr config, s)" "files s4 = files s" "dirs s4 = dirs s"
      "trace s4 = trace s @ [(None, AccessTokenPost ar)]" "no_summary s s4"
      "main_sync env config session s4 = (r, s')"
proof -
  obtain rc s1 where lc: "load_config env s = (rc, s1)"
    by (cases "load_config env s")
  note f1 = load_config_frame [OF lc]
  show thesis
  proof (cases rc)
    case (Inl a)
    with assms lc have "s' = s1"
      by (simp add: main_def)
    with f1 show thesis
      by (intro that(1) [of "[]"]) simp_all
  next
    case (Inr config)
    with f1 have s1: "s1 = s" by simp
    obtain rr s2 where cr: "check_rmapi env s = (rr, s2)"
      by (cases "check_rmapi env s")
    note f2 = check_rmapi_frame [OF cr]
    show thesis
    proof (cases rr)
      case (Some a)
      with assms lc Inr s1 cr have "s' = s2"
        by (simp add: main_def)
      with f2 show thesis
        by (intro that(1) [of "[]"]) simp_all
    next
      case None
      let ?s3 = "logw INFO ''Authenticating with Instapaper...'' [] s2"
      obtain ra s4 where au: "instapaper_auth env config ?s3 = (ra, s4)"
        by (cases "instapaper_auth env config ?s3")
      from instapaper_auth_frame [OF au] f2 obtain ar where
        s4: "dirs s4 = dirs s" "files s4 = files s" "no_summary ?s3 s4"
          "trace s4 = trace s @ [(None, AccessTokenPost ar)]"
        by auto
      have "no_summary s ?s3"
        using f2 by (simp add: no_summary_logw)
      then have ns4: "no_summary s s4"
        using s4(3) by (rule no_summary_trans)
      show thesis
      proof (cases ra)
        case (Inl a)
        with assms lc Inr s1 cr None au have "s' = s4"
          by (simp add: main_def Let_def)
        with s4 ns4 show thesis
          by (intro that(1) [of "[(None, AccessTokenPost ar)]"]) simp_all
      next
        case session: (Inr session)
        with assms lc Inr s1 cr None au have "main_sync env config session s4 = (r, s')"
          by (simp add: main_def Let_def)
        with lc Inr s1 s4 ns4 show thesis
          by (intro that(2) [of config s4 ar session]) simp_all
      qed
    qed
  qed
qed

lemma new_bookmarks_of_absent:
  assumes "new_bookmarks_of bookmarks loaded = Inr new_bookmarks" and "b \<in> set new_bookmarks"
  shows "b \<in> set bookmarks \<and> bookmark_id b \<noteq> None \<and> \<not> dict_in (item_id b) loaded"
  using assms by (auto simp add: new_bookmarks_of_def item_id_def split: if_splits)

text \<open>The calls of a run that went through the loop.\<close>

lemma main_sync_looped_calls:
  assumes "trace s5 = trace s0 @ [(None, ListPost l lr), (None, Mkdtemp (Inr tmpdir))]"
    and "process_all env config tmpdir new_bookmarks s5 = (r6, s6)"
    and "s' = (case r6 of
               Some e \<Rightarrow> rmtree tmpdir s6
             | None \<Rightarrow> logw INFO ''Done. Processed %d bookmark(s).''
                         [PInt (int (length (processed (rmtree tmpdir s6))))] (rmtree tmpdir s6))"
  shows "\<exists>loop. trace s' = trace s0 @
            [(None, ListPost l lr), (None, Mkdtemp (Inr tmpdir))] @ loop @ [(None, Rmtree tmpdir)] \<and>
          (\<forall>x \<in> set loop. loop_call config (snd x) \<and>
             (\<exists>b \<in> set new_bookmarks. bookmark_id b \<noteq> None \<and> fst x = Some (item_id b))) \<and>
          dirs s' = removeAll tmpdir (dirs s5)"
proof -
  from process_all_step [OF assms(2)] obtain loop where
    loop: "trace s6 = trace s5 @ loop" "dirs s6 = dirs s5"
      "\<forall>x \<in> set loop. \<exists>b \<in> set new_bookmarks. bookmark_id b \<noteq> None \<and> fst x = Some (item_id b)"
      "\<forall>x \<in> set loop. loop_call config (snd x)"
    by blast
  have "trace s' = trace s0 @
      [(None, ListPost l lr), (None, Mkdtemp (Inr tmpdir))] @ loop @ [(None, Rmtree tmpdir)]"
    using assms(1,3) loop(1) by (simp split: option.splits)
  moreover have "dirs s' = removeAll tmpdir (dirs s5)"
    using assms(3) loop(2) by (simp split: option.splits)
  ultimately show ?thesis
    using loop(3,4) by blast
qed

lemma loop_call_not_top: "loop_call config c \<Longrightarrow> c \<noteq> Mkdtemp r \<and> c \<noteq> Rmtree d"
  by (auto simp add: loop_call_def)


subsection \<open>Whole runs\<close>

lemma main_sync_item_calls:
  assumes "main_sync env config session s0 = (r, s')"
  shows "\<exists>new. trace s' = trace s0 @ new \<and>
     (\<forall>x \<in> set new. is_item_call (snd x) \<longrightarrow>
        (\<exists>loaded bid. load_processed env (processed_log config) s0 = Inr loaded \<and>
           fst x = Some bid \<and> \<not> dict_in bid loaded))"
  using assms
proof (cases rule: main_sync_cases)
  case (early new)
  then show ?thesis by blast
next
  case (looped lr bookmarks loaded new_bookmarks tmpdir s5 r6 s6)
  from main_sync_looped_calls [OF looped(3,7,9)] obtain loop where
    loop: "trace s' = trace s0 @
            [(None, ListPost (batch_size config) lr), (None, Mkdtemp (Inr tmpdir))] @ loop @
            [(None, Rmtree tmpdir)]"
      "\<forall>x \<in> set loop. \<exists>b \<in> set new_bookmarks. bookmark_id b \<noteq> None \<and> fst x = Some (item_id b)"
    by blast
  have "\<forall>x \<in> set loop. \<exists>bid. fst x = Some bid \<and> \<not> dict_in bid loaded"
    using loop(2) new_bookmarks_of_absent [OF looped(2)] by blast
  then have "\<forall>x \<in> set ([(None, ListPost (batch_size config) lr), (None, Mkdtemp (Inr tmpdir))] @
                 loop @ [(None, Rmtree tmpdir)]).
       is_item_call (snd x) \<longrightarrow>
        (\<exists>loaded bid. load_processed env (processed_log config) s0 = Inr loaded \<and>
           fst x = Some bid \<and> \<not> dict_in bid loaded)"
    using looped(1) by auto
  with loop(1) show ?thesis by blast
qed

text \<open>
  C1.  In every run, each call of a per-item stage (fetch, extract, render, upload) is made
  in the iteration of a bookmark whose id string is not a key of the ledger that the run
  loaded: for an item whose id string is a key, no such call is made.
\<close>

theorem ledgered_items_are_skipped:
  assumes "main env s = (r, s')" and "(t, c) \<in> set (calls_since s s')" and "is_item_call c"
  shows "\<exists>config loaded bid.
           fst (load_config env s) = Inr config \<and>
           load_processed env (processed_log config) s = Inr loaded \<and>
           t = Some bid \<and> \<not> dict_in bid loaded"
  using assms(1)
proof (cases rule: main_cases)
  case (aborted new)
  with assms(2,3) show ?thesis by auto
next
  case (synced config session s4 ar)
  from main_sync_item_calls [OF synced(6)] obtain new where
    new: "trace s' = trace s4 @ new"
      "\<forall>x \<in> set new. is_item_call (snd x) \<longrightarrow>
        (\<exists>loaded bid. load_processed env (processed_log config) s4 = Inr loaded \<and>
           fst x = Some bid \<and> \<not> dict_in bid loaded)"
    by blast
  have "calls_since s s' = (None, AccessTokenPost ar) # new"
    using new(1) synced(4) by simp
  with assms(2,3) have "(t, c) \<in> set new"
    by auto
  with new(2) assms(3) obtain loaded bid where
    "load_processed env (processed_log config) s4 = Inr loaded" "t = Some bid"
    "\<not> dict_in bid loaded"
    by fastforce
  moreover have "load_processed env (processed_log config) s4 =
                 load_processed env (processed_log config) s"
    using synced(2) by (rule load_processed_files)
  ultimately show ?thesis
    using synced(1) by auto
qed

theorem ledgered_items_are_skipped_witness:
  "(Some (str_of ''2''), FetchUrl (PStr (str_of ''b'')) (Inr (Some (str_of ''h''))))
     \<in> set (calls_since state0 (snd (main env0 state0))) \<and>
   is_item_call (FetchUrl (PStr (str_of ''b'')) (Inr (Some (str_of ''h'')))) \<and>
   load_processed env0 (str_of ''/l'') state0 = Inr ledger0 \<and>
   \<not> dict_in (str_of ''2'') ledger0 \<and>
   dict_in (str_of ''1'') ledger0 \<and>
   Some (str_of ''1'') \<notin> set (map fst (calls_since state0 (snd (main env0 state0))))"
proof -
  let ?c = "FetchUrl (PStr (str_of ''b'')) (Inr (Some (str_of ''h'')))"
  have run: "main env0 state0 = (fst (main env0 state0), snd (main env0 state0))"
    by simp
  have mem: "(Some (str_of ''2''), ?c) \<in> set (calls_since state0 (snd (main env0 state0)))"
    by (simp add: ex_defs str_defs run_defs)
  have ic: "is_item_call ?c"
    by simp
  have cfg: "load_config env0 state0 = (Inr config0, state0)"
    by (simp add: load_config_def required_def getenv_default_def env0_def config0_def str_of_def)
  have ld: "load_processed env0 (str_of ''/l'') state0 = Inr ledger0"
    by (simp add: load_processed_def ex_defs str_defs)
  from ledgered_items_are_skipped [OF run mem ic] cfg ld
  have absent: "\<not> dict_in (str_of ''2'') ledger0"
    by (auto simp add: config0_def)
  have present: "dict_in (str_of ''1'') ledger0"
    by (simp add: ledger0_def dict_in_def)
  have none: "Some (str_of ''1'') \<notin> set (map fst (calls_since state0 (snd (main env0 state0))))"
    by (simp add: ex_defs str_defs run_defs)
  show ?thesis
    using mem ic ld absent present none by blast
qed

lemma main_sync_tmpdir:
  assumes "main_sync env config session s0 = (r, s')"
  shows "\<exists>new. trace s' = trace s0 @ new \<and>
     (\<forall>x \<in> set new. \<forall>d. snd x = Mkdtemp (Inr d) \<longrightarrow>
        (\<exists>pre loop. new = pre @ [(None, Mkdtemp (Inr d))] @ loop @ [(None, Rmtree d)] \<and>
           (\<forall>y \<in> set loop. loop_call config (snd y))) \<and>
        d \<notin> set (dirs s'))"
  using assms
proof (cases rule: main_sync_cases)
  case (early new)
  then show ?thesis by blast
next
  case (looped lr bookmarks loaded new_bookmarks tmpdir s5 r6 s6)
  from main_sync_looped_calls [OF looped(3,7,9)] obtain loop where
    loop: "trace s' = trace s0 @
            [(None, ListPost (batch_size config) lr), (None, Mkdtemp (Inr tmpdir))] @ loop @
            [(None, Rmtree tmpdir)]"
      "\<forall>x \<in> set loop. loop_call config (snd x)"
      "dirs s' = removeAll tmpdir (dirs s5)"
    by blast
  let ?new = "[(None, ListPost (batch_size config) lr), (None, Mkdtemp (Inr tmpdir))] @ loop @
            [(None, Rmtree tmpdir)]"
  have shape: "?new = [(None, ListPost (batch_size config) lr)] @ [(None, Mkdtemp (Inr tmpdir))] @
                 loop @ [(None, Rmtree tmpdir)]"
    by simp
  have only: "\<forall>x \<in> set ?new. \<forall>d. snd x = Mkdtemp (Inr d) \<longrightarrow> d = tmpdir"
    using loop(2) by (auto dest: loop_call_not_top)
  have gone: "tmpdir \<notin> set (dirs s')"
    using loop(3) by simp
  have "\<forall>x \<in> set ?new. \<forall>d. snd x = Mkdtemp (Inr d) \<longrightarrow>
        (\<exists>pre loop'. ?new = pre @ [(None, Mkdtemp (Inr d))] @ loop' @ [(None, Rmtree d)] \<and>
           (\<forall>y \<in> set loop'. loop_call config (snd y))) \<and>
        d \<notin> set (dirs s')"
    using only shape loop(2) gone by blast
  with loop(1) show ?thesis by blast
qed

text \<open>
  C8.  In every run that created its temporary directory, however the run ends: the
  calls after the creation are the calls of the loop followed by the removal of that
  directory, which is the last call of the run, and the directory no longer exists.
\<close>

theorem temporary_directory_is_removed:
  assumes "main env s = (r, s')" and "(t, Mkdtemp (Inr d)) \<in> set (calls_since s s')"
  shows "\<exists>pre loop.
           calls_since s s' = pre @ [(None, Mkdtemp (Inr d))] @ loop @ [(None, Rmtree d)] \<and>
           (\<forall>y \<in> set loop. is_item_call (snd y) \<or> (\<exists>p body. snd y = WriteText p body)) \<and>
           d \<notin> set (dirs s')"
  using assms(1)
proof (cases rule: main_cases)
  case (aborted new)
  with assms(2) show ?thesis by auto
next
  case (synced config session s4 ar)
  from main_sync_tmpdir [OF synced(6)] obtain new where
    new: "trace s' = trace s4 @ new"
      "\<forall>x \<in> set new. \<forall>d. snd x = Mkdtemp (Inr d) \<longrightarrow>
        (\<exists>pre loop. new = pre @ [(None, Mkdtemp (Inr d))] @ loop @ [(None, Rmtree d)] \<and>
           (\<forall>y \<in> set loop. loop_call config (snd y))) \<and>
        d \<notin> set (dirs s')"
    by blast
  have cs: "calls_since s s' = (None, AccessTokenPost ar) # new"
    using new(1) synced(4) by simp
  with assms(2) have "(t, Mkdtemp (Inr d)) \<in> set new"
    by auto
  with new(2) obtain pre loop where
    "new = pre @ [(None, Mkdtemp (Inr d))] @ loop @ [(None, Rmtree d)]"
    "\<forall>y \<in> set loop. loop_call config (snd y)" "d \<notin> set (dirs s')"
    by fastforce
  then have "calls_since s s' =
        ((None, AccessTokenPost ar) # pre) @ [(None, Mkdtemp (Inr d))] @ loop @ [(None, Rmtree d)] \<and>
      (\<forall>y \<in> set loop. is_item_call (snd y) \<or> (\<exists>p body. snd y = WriteText p body)) \<and>
      d \<notin> set (dirs s')"
    using cs by (auto simp add: loop_call_def)
  then show ?thesis by blast
qed

theorem temporary_directory_is_removed_witness:
  "(None, Mkdtemp (Inr (str_of ''/t''))) \<in> set (calls_since state0 (snd (main env0 state0))) \<and>
   fst (main env0 state0) = None \<and>
   last (calls_since state0 (snd (main env0 state0))) = (None, Rmtree (str_of ''/t'')) \<and>
   str_of ''/t'' \<notin> set (dirs (snd (main env0 state0))) \<and>
   (None, Mkdtemp (Inr (str_of ''/t'')))
     \<in> set (calls_since state0 (snd (main env_null_title state0))) \<and>
   fst (main env_null_title state0) = Some (Uncaught TypeError) \<and>
   last (calls_since state0 (snd (main env_null_title state0))) = (None, Rmtree (str_of ''/t'')) \<and>
   str_of ''/t'' \<notin> set (dirs (snd (main env_null_title state0)))"
proof -
  have run: "main env0 state0 = (fst (main env0 state0), snd (main env0 state0))"
    and run': "main env_null_title state0 =
                 (fst (main env_null_title state0), snd (main env_null_title state0))"
    by simp_all
  have mem: "(None, Mkdtemp (Inr (str_of ''/t''))) \<in> set (calls_since state0 (snd (main env0 state0)))"
    by (simp add: ex_defs str_defs run_defs)
  have mem': "(None, Mkdtemp (Inr (str_of ''/t'')))
                \<in> set (calls_since state0 (snd (main env_null_title state0)))"
    by (simp add: env_null_title_def ex_defs str_defs run_defs)
  have r: "fst (main env0 state0) = None"
    by (simp add: ex_defs str_defs run_defs)
  have r': "fst (main env_null_title state0) = Some (Uncaught TypeError)"
    by (simp add: env_null_title_def ex_defs str_defs run_defs)
  from temporary_directory_is_removed [OF run mem]
  have a: "last (calls_since state0 (snd (main env0 state0))) = (None, Rmtree (str_of ''/t'')) \<and>
           str_of ''/t'' \<notin> set (dirs (snd (main env0 state0)))"
    by auto
  from temporary_directory_is_removed [OF run' mem']
  have b: "last (calls_since state0 (snd (main env_null_title state0))) =
             (None, Rmtree (str_of ''/t'')) \<and>
           str_of ''/t'' \<notin> set (dirs (snd (main env_null_title state0)))"
    by auto
  show ?thesis
    using mem mem' r r' a b by blast
qed


lemma main_sync_summary:
  assumes "main_sync env config session s0 = (r, s')"
  shows "\<exists>l. logs s' = logs s0 @ l \<and>
     (\<forall>e \<in> set l. is_summary e \<longrightarrow>
        e = Log INFO ''Done. Processed %d bookmark(s).''
              [PInt (int (length (processed s')))] None \<and>
        last (logs s') = e \<and> r = None \<and>
        (\<exists>loaded. load_processed env (processed_log config) s0 = Inr loaded \<and>
           length loaded \<le> length (processed s') \<and>
           fst ` set loaded \<subseteq> fst ` set (processed s')))"
  using assms
proof (cases rule: main_sync_cases)
  case (early new)
  then show ?thesis by (auto simp add: no_summary_def)
next
  case (looped lr bookmarks loaded new_bookmarks tmpdir s5 r6 s6)
  from looped(6) obtain l5 where
    l5: "logs s5 = logs s0 @ l5" "\<forall>e \<in> set l5. \<not> is_summary e"
    by (auto simp add: no_summary_def)
  from process_all_no_summary [OF looped(7)] obtain l6 where
    l6: "logs s6 = logs s5 @ l6" "\<forall>e \<in> set l6. \<not> is_summary e"
    by (auto simp add: no_summary_def)
  from process_all_step [OF looped(7)] have
    grow: "length loaded \<le> length (processed s6)"
      "fst ` set loaded \<subseteq> fst ` set (processed s6)"
    using looped(4) by auto
  show ?thesis
  proof (cases r6)
    case (Some e)
    with looped(9) have "logs s' = logs s0 @ (l5 @ l6)"
      using l5(1) l6(1) by simp
    moreover have "\<forall>e \<in> set (l5 @ l6). \<not> is_summary e"
      using l5(2) l6(2) by auto
    ultimately show ?thesis by blast
  next
    case None
    let ?e = "Log INFO ''Done. Processed %d bookmark(s).'' [PInt (int (length (processed s')))] None"
    from None looped(9) have s': "processed s' = processed s6" "logs s' = logs s6 @ [?e]"
      by simp_all
    have a: "logs s' = logs s0 @ (l5 @ l6 @ [?e])"
      using s'(2) l5(1) l6(1) by simp
    have b: "\<forall>e \<in> set (l5 @ l6 @ [?e]). is_summary e \<longrightarrow> e = ?e"
      using l5(2) l6(2) by auto
    have c: "last (logs s') = ?e" "r = None"
      using s'(2) None looped(8) by simp_all
    have d: "\<exists>loaded. load_processed env (processed_log config) s0 = Inr loaded \<and>
           length loaded \<le> length (processed s') \<and>
           fst ` set loaded \<subseteq> fst ` set (processed s')"
      using looped(1) grow s'(1) by simp
    from a b c d show ?thesis
      by (intro exI [of _ "l5 @ l6 @ [?e]"]) blast
  qed
qed

text \<open>
  C10.  In every run, a summary record logged during the run is the last log record, its
  count is the number of entries of the ledger as the run ends, and that ledger contains
  every key of the ledger that was loaded from the file, so the count is at least the
  number of entries recorded by earlier runs.
\<close>

theorem summary_counts_whole_ledger:
  assumes "main env s = (r, s')" and "e \<in> set (logs_since s s')" and "is_summary e"
  shows "e = Log INFO ''Done. Processed %d bookmark(s).''
               [PInt (int (length (processed s')))] None \<and>
         last (logs s') = e \<and> r = None \<and>
         (\<exists>config loaded.
            fst (load_config env s) = Inr config \<and>
            load_processed env (processed_log config) s = Inr loaded \<and>
            length loaded \<le> length (processed s') \<and>
            fst ` set loaded \<subseteq> fst ` set (processed s'))"
  using assms(1)
proof (cases rule: main_cases)
  case (aborted new)
  with assms(2,3) show ?thesis
    by (auto simp add: no_summary_def logs_since_def)
next
  case (synced config session s4 ar)
  from synced(5) obtain l4 where
    l4: "logs s4 = logs s @ l4" "\<forall>e \<in> set l4. \<not> is_summary e"
    by (auto simp add: no_summary_def)
  from main_sync_summary [OF synced(6)] obtain l where
    l: "logs s' = logs s4 @ l"
      "\<forall>e \<in> set l. is_summary e \<longrightarrow>
        e = Log INFO ''Done. Processed %d bookmark(s).''
              [PInt (int (length (processed s')))] None \<and>
        last (logs s') = e \<and> r = None \<and>
        (\<exists>loaded. load_processed env (processed_log config) s4 = Inr loaded \<and>
           length loaded \<le> length (processed s') \<and>
           fst ` set loaded \<subseteq> fst ` set (processed s'))"
    by blast
  have "logs_since s s' = l4 @ l"
    using l4(1) l(1) by (simp add: logs_since_def)
  with assms(2,3) l4(2) have "e \<in> set l"
    by auto
  with l(2) assms(3) have
    "e = Log INFO ''Done. Processed %d bookmark(s).''
              [PInt (int (length (processed s')))] None \<and>
        last (logs s') = e \<and> r = None \<and>
        (\<exists>loaded. load_processed env (processed_log config) s4 = Inr loaded \<and>
           length loaded \<le> length (processed s') \<and>
           fst ` set loaded \<subseteq> fst ` set (processed s'))"
    by blast
  moreover have "load_processed env (processed_log config) s4 =
                 load_processed env (processed_log config) s"
    using synced(2) by (rule load_processed_files)
  ultimately show ?thesis
    using synced(1) by auto
qed

theorem summary_counts_whole_ledger_witness:
  "Log INFO ''Done. Processed %d bookmark(s).'' [PInt 4] None
     \<in> set (logs_since state0 (snd (main env0 state0))) \<and>
   is_summary (Log INFO ''Done. Processed %d bookmark(s).'' [PInt 4] None) \<and>
   int (length (processed (snd (main env0 state0)))) = 4 \<and>
   load_processed env0 (str_of ''/l'') state0 = Inr ledger0 \<and> length ledger0 = 3 \<and>
   length (fetches (calls_since state0 (snd (main env0 state0)))) = 3 \<and>
   length (filter (\<lambda>x. put_ok (snd x)) (calls_since state0 (snd (main env0 state0)))) = 1"
proof -
  let ?e = "Log INFO ''Done. Processed %d bookmark(s).'' [PInt 4] None"
  have run: "main env0 state0 = (fst (main env0 state0), snd (main env0 state0))"
    by simp
  have mem: "?e \<in> set (logs_since state0 (snd (main env0 state0)))"
    by (simp add: logs_since_def ex_defs str_defs run_defs)
  have sm: "is_summary ?e"
    by (simp add: is_summary_def)
  from summary_counts_whole_ledger [OF run mem sm]
  have count: "int (length (processed (snd (main env0 state0)))) = 4"
    by simp
  have ld: "load_processed env0 (str_of ''/l'') state0 = Inr ledger0" "length ledger0 = 3"
    by (simp_all add: load_processed_def ex_defs str_defs)
  have three: "length (fetches (calls_since state0 (snd (main env0 state0)))) = 3"
    by (simp add: ex_defs str_defs run_defs)
  have one: "length (filter (\<lambda>x. put_ok (snd x)) (calls_since state0 (snd (main env0 state0)))) = 1"
    by (simp add: ex_defs str_defs run_defs)
  show ?thesis
    using mem sm count ld three one by blast
qed


subsection \<open>Image tags\<close>

lemma match_open_hd: "match_open w (c # cs) \<Longrightarrow> c = 60"
  by (auto simp add: match_open_def str_of_def)

lemma match_close_hd: "match_close (c # cs) \<Longrightarrow> c = 60"
  by (auto simp add: match_close_def str_of_def)

lemma sub_graphic_open_prefix:
  "60 \<notin> set p \<Longrightarrow> sub_graphic_open w (p @ s) = p @ sub_graphic_open w s"
  by (induction p) (auto dest: match_open_hd)

lemma sub_graphic_close_prefix:
  "60 \<notin> set p \<Longrightarrow> sub_graphic_close (p @ s) = p @ sub_graphic_close s"
  by (induction p) (auto dest: match_close_hd)

lemma match_close_iff: "match_close s \<longleftrightarrow> (\<exists>r. s = str_of ''</graphic>'' @ r)"
proof
  assume "match_close s"
  then have "take 10 s = str_of ''</graphic>''"
    by (simp add: match_close_def)
  then have "s = str_of ''</graphic>'' @ drop 10 s"
    by (metis append_take_drop_id)
  then show "\<exists>r. s = str_of ''</graphic>'' @ r" ..
next
  assume "\<exists>r. s = str_of ''</graphic>'' @ r"
  then show "match_close s"
    by (auto simp add: match_close_def str_of_def)
qed

lemma not_open_at_close: "\<not> match_open w (str_of ''</graphic>'' @ r)"
  by (simp add: match_open_def str_of_def)

lemma sub_graphic_open_close_tag:
  "sub_graphic_open w (str_of ''</graphic>'' @ r) = str_of ''</graphic>'' @ sub_graphic_open w r"
proof -
  have "str_of ''</graphic>'' @ r = 60 # (str_of ''/graphic>'' @ r)"
    by (simp add: str_of_def)
  moreover have "\<not> match_open w (60 # (str_of ''/graphic>'' @ r))"
    using not_open_at_close [of w r] by (simp add: str_of_def)
  moreover have "sub_graphic_open w (str_of ''/graphic>'' @ r) =
                 str_of ''/graphic>'' @ sub_graphic_open w r"
    by (rule sub_graphic_open_prefix) (simp add: str_of_def)
  ultimately show ?thesis
    by (simp add: str_of_def)
qed

lemma sub_graphic_open_reflects_prefix:
  "60 \<notin> set p \<Longrightarrow> take (length p) (sub_graphic_open w x) = p \<Longrightarrow> take (length p) x = p"
proof (induction p arbitrary: x)
  case Nil
  then show ?case by simp
next
  case (Cons a p)
  show ?case
  proof (cases x)
    case Nil
    with Cons.prems show ?thesis by simp
  next
    case (Cons c cs)
    show ?thesis
    proof (cases "match_open w (c # cs)")
      case True
      with Cons Cons.prems show ?thesis
        by (simp add: str_of_def)
    next
      case False
      with Cons Cons.prems Cons.IH [of cs] show ?thesis
        by simp
    qed
  qed
qed

lemma match_close_sub_graphic_open:
  "match_close (sub_graphic_open w s) \<longleftrightarrow> match_close s"
proof
  assume "match_close s"
  then obtain r where "s = str_of ''</graphic>'' @ r"
    by (auto simp add: match_close_iff)
  then show "match_close (sub_graphic_open w s)"
    by (auto simp add: sub_graphic_open_close_tag match_close_iff)
next
  assume m: "match_close (sub_graphic_open w s)"
  have p: "60 \<notin> set (str_of ''/graphic>'')" "length (str_of ''/graphic>'') = 9"
    by (simp_all add: str_of_def)
  show "match_close s"
  proof (cases s)
    case Nil
    with m show ?thesis by (simp add: match_close_def str_of_def)
  next
    case (Cons c cs)
    show ?thesis
    proof (cases "match_open w (c # cs)")
      case True
      with m Cons show ?thesis
        by (simp add: match_close_def str_of_def)
    next
      case False
      with m Cons have c: "c = 60" and t: "take 9 (sub_graphic_open w cs) = str_of ''/graphic>''"
        by (simp_all add: match_close_def str_of_def)
      from sub_graphic_open_reflects_prefix [OF p(1), of w cs] t p(2)
      have "take 9 cs = str_of ''/graphic>''"
        by simp
      with c Cons show ?thesis
        by (simp add: match_close_def str_of_def)
    qed
  qed
qed


lemma sub_graphic_close_img:
  "sub_graphic_close (str_of ''<img'' @ t) = str_of ''<img'' @ sub_graphic_close t"
proof -
  have "\<not> match_close (60 # (str_of ''img'' @ t))"
    by (simp add: match_close_def str_of_def)
  moreover have "sub_graphic_close (str_of ''img'' @ t) = str_of ''img'' @ sub_graphic_close t"
    by (rule sub_graphic_close_prefix) (simp add: str_of_def)
  ultimately show ?thesis
    by (simp add: str_of_def)
qed

lemma sub_graphic_close_close_tag:
  "sub_graphic_close (str_of ''</graphic>'' @ t) = sub_graphic_close t"
proof -
  have "match_close (60 # (str_of ''/graphic>'' @ t))"
    by (simp add: match_close_def str_of_def)
  then show ?thesis
    by (simp add: str_of_def)
qed


lemma match_close_split: "match_close (c # cs) \<Longrightarrow> c # cs = str_of ''</graphic>'' @ drop 9 cs"
proof -
  assume "match_close (c # cs)"
  then have t: "take 10 (c # cs) = str_of ''</graphic>''"
    by (simp only: match_close_def)
  have d: "drop 10 (c # cs) = drop 9 cs"
    by simp
  have "c # cs = take 10 (c # cs) @ drop 10 (c # cs)"
    by (simp only: append_take_drop_id)
  then show ?thesis
    by (simp only: t d)
qed

text \<open>
  C3, as amended.  For every content string, the two substitutions of the source together
  are the rewriting that turns each \<open><graphic\<close> at a word boundary into \<open><img\<close>, keeps
  what follows (the attributes), drops each \<open></graphic>\<close>, and copies everything else.
\<close>

theorem normalize_content_rewrites_tags:
  "normalize_content w content = rewrite_tags w content"
proof (induction w content rule: rewrite_tags.induct)
  case (1 w)
  show ?case by (simp add: normalize_content_def)
next
  case (2 w c cs)
  show ?case
  proof (cases "match_open w (c # cs)")
    case True
    then have "sub_graphic_open w (c # cs) = str_of ''<img'' @ sub_graphic_open w (drop 7 cs)"
      by simp
    then have "normalize_content w (c # cs) =
               str_of ''<img'' @ normalize_content w (drop 7 cs)"
      by (simp only: normalize_content_def sub_graphic_close_img)
    also have "\<dots> = str_of ''<img'' @ rewrite_tags w (drop 7 cs)"
      using 2(1) [OF True] by (simp only:)
    also have "\<dots> = rewrite_tags w (c # cs)"
      using True by simp
    finally show ?thesis .
  next
    case False
    show ?thesis
    proof (cases "match_close (c # cs)")
      case True
      have "sub_graphic_open w (c # cs) = str_of ''</graphic>'' @ sub_graphic_open w (drop 9 cs)"
        by (subst match_close_split [OF True]) (rule sub_graphic_open_close_tag)
      then have "normalize_content w (c # cs) = normalize_content w (drop 9 cs)"
        by (simp only: normalize_content_def sub_graphic_close_close_tag)
      also have "\<dots> = rewrite_tags w (drop 9 cs)"
        using 2(2) [OF False True] by (simp only:)
      also have "\<dots> = rewrite_tags w (c # cs)"
        using False True by simp
      finally show ?thesis .
    next
      case nc: False
      have o: "sub_graphic_open w (c # cs) = c # sub_graphic_open w cs"
        using False by simp
      have "\<not> match_close (sub_graphic_open w (c # cs))"
        using nc by (simp only: match_close_sub_graphic_open not_False_eq_True)
      then have "\<not> match_close (c # sub_graphic_open w cs)"
        by (simp only: o not_False_eq_True)
      then have "sub_graphic_close (c # sub_graphic_open w cs) =
                 c # sub_graphic_close (sub_graphic_open w cs)"
        by simp
      then have "normalize_content w (c # cs) = c # normalize_content w cs"
        by (simp only: normalize_content_def o)
      also have "\<dots> = c # rewrite_tags w cs"
        using 2(3) [OF False nc] by (simp only:)
      also have "\<dots> = rewrite_tags w (c # cs)"
        using False nc by simp
      finally show ?thesis .
    qed
  qed
qed


text \<open>
  C3, as stated, fails: on a content string with a closing tag the result is not the
  substitution of the tag names; the closing tag is gone.
\<close>

theorem normalize_content_drops_closing_tag:
  "normalize_content no_alnum (str_of ''<graphic src=a></graphic>'') = str_of ''<img src=a>'' \<and>
   rename_tags_spec no_alnum (str_of ''<graphic src=a></graphic>'') = str_of ''<img src=a></img>'' \<and>
   normalize_content no_alnum (str_of ''<graphic src=a></graphic>'') \<noteq>
   rename_tags_spec no_alnum (str_of ''<graphic src=a></graphic>'')"
  by (simp add: normalize_content_def match_open_def match_close_def is_word_def str_of_def
        no_alnum_def)

end
